theory Spec2Isabelle
  imports Complex_Main "HOL-Library.Word"
begin

unbundle bit_operations_syntax

section \<open>Data model of TSApredictor (main.cpp)\<close>

text \<open>
  The floating type \<open>NTYP\<close> is embedded as \<open>real\<close> (exact arithmetic), \<open>int32_t\<close> and
  \<open>int\<close> as \<open>int\<close>, the 32-bit grid words \<open>DDBYTE\<close> as \<open>32 word\<close> and \<open>BYTE\<close> as
  \<open>8 word\<close>. The struct \<open>Complex\<close> (fields re, im) is the type \<open>complex\<close> with the
  selectors \<open>Re\<close> and \<open>Im\<close>; its operators \<open>+\<close>, \<open>-\<close>, \<open>*\<close> and \<open>/\<close> are written out
  in main.cpp exactly as the library defines them on \<open>complex\<close>.
  The fields of \<open>PlaneRect\<close> and \<open>ScreenRect\<close> carry a prefix (r, s) because both
  structs use the names x0, x1, y0, y1; the y-range of a \<open>PeriodicPoint\<close> is py0, py1.
\<close>

type_synonym BYTE = "8 word"
type_synonym DDBYTE = "32 word"

definition DENOM225 :: int where "DENOM225 = 2 ^ 25"
definition MAXZEROS :: int where "MAXZEROS = 1024"
definition SHIFTPERDDBYTE :: nat where "SHIFTPERDDBYTE = 5"
definition SQUARE_GRAY :: BYTE where "SQUARE_GRAY = 0"
definition ALL32GRAY :: DDBYTE where "ALL32GRAY = 0"
definition SQUARE_POTW :: BYTE where "SQUARE_POTW = 1"
definition DDBYTEMAX :: DDBYTE where "DDBYTEMAX = 0xFFFFFFFF"
definition ALL32POTW :: DDBYTE where "ALL32POTW = DDBYTEMAX"
definition ZEROEPSILON :: real where "ZEROEPSILON = 1 / 10 ^ 15"
definition COEFFZEROLIMIT :: real where "COEFFZEROLIMIT = 1 / 10 ^ 40"
definition MAXDEGREE :: nat where "MAXDEGREE = 32"
definition MAXPTR :: int where "MAXPTR = 2048"
definition CHUNKSIZE :: int where "CHUNKSIZE = 2 ^ 30"

definition FUNC_Z2C :: int where "FUNC_Z2C = 0"
definition FUNC_Z2AZC :: int where "FUNC_Z2AZC = 1"
definition FUNC_Z3AZC :: int where "FUNC_Z3AZC = 2"
definition FUNC_Z4AZC :: int where "FUNC_Z4AZC = 3"
definition FUNC_Z5AZC :: int where "FUNC_Z5AZC = 4"
definition FUNC_Z6AZC :: int where "FUNC_Z6AZC = 5"

record PlaneRect =
  rx0 :: real
  rx1 :: real
  ry0 :: real
  ry1 :: real

record ScreenRect =
  sx0 :: int
  sx1 :: int
  sy0 :: int
  sy1 :: int

record Polynom =
  grad :: int
  coeff :: "complex list"
  coeffnull :: "int list"

record PeriodicPoint =
  pp :: complex
  mem0 :: int
  mem1 :: int
  py0 :: int
  py1 :: int

text \<open>
  \<open>Root.cycle\<close> is a pointer to a heap array; it is embedded as the list of the
  array's elements, the NULL pointer as the empty list.
\<close>

record Root =
  attractor :: complex
  cycle :: "PeriodicPoint list"
  ps_basinrect :: PlaneRect
  interiorfound :: int
  cyclelen :: int
  cyclenumber :: int
  multiplier :: real

text \<open>
  The module-scope variables that the modelled functions read or write. \<open>FUNC\<close> is
  \<open>_FUNC\<close> and \<open>ENCLOSEMENTWIDTH\<close> is \<open>_ENCLOSEMENTWIDTH\<close>; \<open>local_rect\<close> is the global
  \<open>local\<close>. The root table \<open>zero\<close> with its fill count \<open>nbr_of_cp\<close> is passed as a
  list of its first \<open>nbr_of_cp\<close> entries.
\<close>

record Globals =
  MAXIT :: int
  LEVEL0 :: int
  LEVEL1 :: int
  ENCLOSEMENTWIDTH :: int
  FUNC :: int
  fkt :: Polynom
  seedC0re :: real
  seedC1re :: real
  seedC0im :: real
  seedC1im :: real
  FAKTORAre :: real
  FAKTORAim :: real
  scaleRangePerPixel :: real
  scalePixelPerRange :: real
  COMPLETE0 :: real
  COMPLETE1 :: real
  local_rect :: PlaneRect

section \<open>Complex and polynomial kernel\<close>

definition normQ :: "complex \<Rightarrow> real" where
  "normQ z = Re z * Re z + Im z * Im z"

definition norm_c :: "complex \<Rightarrow> real" where
  "norm_c z = sqrt (Re z * Re z + Im z * Im z)"

definition clearCoeff :: "Polynom \<Rightarrow> Polynom" where
  "clearCoeff p = p\<lparr> coeffnull := replicate MAXDEGREE 1,
                      coeff := replicate MAXDEGREE (Complex 0 0),
                      grad := 0 \<rparr>"

definition setCoeff :: "Polynom \<Rightarrow> int \<Rightarrow> complex \<Rightarrow> Polynom" where
  "setCoeff p aidx ac =
     (let p = p\<lparr> coeff := (coeff p)[nat aidx := ac] \<rparr>
      in if normQ (coeff p ! nat aidx) < COEFFZEROLIMIT
         then p\<lparr> coeffnull := (coeffnull p)[nat aidx := 1] \<rparr>
         else (let p = p\<lparr> coeffnull := (coeffnull p)[nat aidx := 0] \<rparr>
               in if aidx > grad p then p\<lparr> grad := aidx \<rparr> else p))"

text \<open>Horner's rule: the loop \<open>for (i = grad; i > 0; i--)\<close> of \<open>eval_arg_f\<close>.\<close>

fun eval_loop :: "complex list \<Rightarrow> complex \<Rightarrow> nat \<Rightarrow> complex \<Rightarrow> complex" where
  "eval_loop cs az 0 erg = erg"
| "eval_loop cs az (Suc i) erg = eval_loop cs az i (erg * az + cs ! i)"

definition eval_arg_f :: "Polynom \<Rightarrow> complex \<Rightarrow> complex" where
  "eval_arg_f p az = eval_loop (coeff p) az (nat (grad p)) (coeff p ! nat (grad p))"

text \<open>
  The polynomial that \<open>setfunc\<close> stores in \<open>fkt\<close> for the coefficients \<open>cplxA\<close> and
  \<open>cplxC\<close>: \<open>z^d + A*z + c\<close>, and \<open>z^2 + c\<close> in the default branch.
\<close>

definition empty_Polynom :: Polynom where
  "empty_Polynom = clearCoeff \<lparr> grad = 0, coeff = [], coeffnull = [] \<rparr>"

definition setfunc :: "int \<Rightarrow> complex \<Rightarrow> complex \<Rightarrow> Polynom" where
  "setfunc afunc cplxA cplxC =
     (let p = clearCoeff empty_Polynom
      in if afunc = FUNC_Z3AZC then setCoeff (setCoeff (setCoeff p 3 1) 1 cplxA) 0 cplxC
         else if afunc = FUNC_Z4AZC then setCoeff (setCoeff (setCoeff p 4 1) 1 cplxA) 0 cplxC
         else if afunc = FUNC_Z5AZC then setCoeff (setCoeff (setCoeff p 5 1) 1 cplxA) 0 cplxC
         else if afunc = FUNC_Z6AZC then setCoeff (setCoeff (setCoeff p 6 1) 1 cplxA) 0 cplxC
         else if afunc = FUNC_Z2AZC then setCoeff (setCoeff (setCoeff p 2 1) 1 cplxA) 0 cplxC
         else setCoeff (setCoeff p 2 1) 0 cplxC)"

section \<open>Interval evaluators\<close>

definition maximumD4 :: "real \<Rightarrow> real \<Rightarrow> real \<Rightarrow> real \<Rightarrow> real" where
  "maximumD4 a b c d =
     (let m = a; m = (if b > m then b else m); m = (if c > m then c else m);
          m = (if d > m then d else m)
      in m)"

definition minimumD4 :: "real \<Rightarrow> real \<Rightarrow> real \<Rightarrow> real \<Rightarrow> real" where
  "minimumD4 a b c d =
     (let m = a; m = (if b < m then b else m); m = (if c < m then c else m);
          m = (if d < m then d else m)
      in m)"

definition minimumD :: "real \<Rightarrow> real \<Rightarrow> real" where
  "minimumD a b = (if a < b then a else b)"

definition maximumD :: "real \<Rightarrow> real \<Rightarrow> real" where
  "maximumD a b = (if a > b then a else b)"

text \<open>
  The six evaluators, term by term as main.cpp writes them (lines 281-335).
\<close>

definition getBoundingBoxfA_z2c :: "Globals \<Rightarrow> PlaneRect \<Rightarrow> PlaneRect" where
  "getBoundingBoxfA_z2c g A = \<lparr>
     rx0 = minimumD (rx0 A * rx0 A) (rx1 A * rx1 A) - maximumD (ry0 A * ry0 A) (ry1 A * ry1 A) + seedC0re g,
     rx1 = maximumD (rx0 A * rx0 A) (rx1 A * rx1 A) - minimumD (ry0 A * ry0 A) (ry1 A * ry1 A) + seedC1re g,
     ry0 = 2 * minimumD4 (rx0 A * ry0 A) (rx0 A * ry1 A) (rx1 A * ry0 A) (rx1 A * ry1 A) + seedC0im g,
     ry1 = 2 * maximumD4 (rx0 A * ry0 A) (rx0 A * ry1 A) (rx1 A * ry0 A) (rx1 A * ry1 A) + seedC1im g \<rparr>"

definition getBoundingBoxfA_z2azc :: "Globals \<Rightarrow> PlaneRect \<Rightarrow> PlaneRect" where
  "getBoundingBoxfA_z2azc g A = \<lparr>
     rx0 = seedC0re g + minimumD (FAKTORAre g * rx0 A) (FAKTORAre g * rx1 A) + minimumD (rx0 A * rx0 A) (rx1 A * rx1 A) - maximumD (FAKTORAim g * ry0 A) (FAKTORAim g * ry1 A) - maximumD (ry0 A * ry0 A) (ry1 A * ry1 A),
     rx1 = seedC1re g + maximumD (FAKTORAre g * rx0 A) (FAKTORAre g * rx1 A) + maximumD (rx0 A * rx0 A) (rx1 A * rx1 A) - minimumD (FAKTORAim g * ry0 A) (FAKTORAim g * ry1 A) - minimumD (ry0 A * ry0 A) (ry1 A * ry1 A),
     ry0 = seedC0im g + minimumD (FAKTORAim g * rx0 A) (FAKTORAim g * rx1 A) + minimumD (FAKTORAre g * ry0 A) (FAKTORAre g * ry1 A) + 2 * minimumD4 (rx0 A * ry0 A) (rx0 A * ry1 A) (rx1 A * ry0 A) (rx1 A * ry1 A),
     ry1 = seedC1im g + maximumD (FAKTORAim g * rx0 A) (FAKTORAim g * rx1 A) + maximumD (FAKTORAre g * ry0 A) (FAKTORAre g * ry1 A) + 2 * maximumD4 (rx0 A * ry0 A) (rx0 A * ry1 A) (rx1 A * ry0 A) (rx1 A * ry1 A) \<rparr>"

definition getBoundingBoxfA_z3azc :: "Globals \<Rightarrow> PlaneRect \<Rightarrow> PlaneRect" where
  "getBoundingBoxfA_z3azc g A = \<lparr>
     rx0 = minimumD (FAKTORAre g * rx0 A) (FAKTORAre g * rx1 A) - maximumD (FAKTORAim g * ry0 A) (FAKTORAim g * ry1 A) + rx0 A * rx0 A * rx0 A - (3 * maximumD4 (rx0 A * minimumD (ry0 A * ry0 A) (ry1 A * ry1 A)) (rx0 A * maximumD (ry0 A * ry0 A) (ry1 A * ry1 A)) (rx1 A * minimumD (ry0 A * ry0 A) (ry1 A * ry1 A)) (rx1 A * maximumD (ry0 A * ry0 A) (ry1 A * ry1 A))) + seedC0re g,
     rx1 = maximumD (FAKTORAre g * rx0 A) (FAKTORAre g * rx1 A) - minimumD (FAKTORAim g * ry0 A) (FAKTORAim g * ry1 A) + rx1 A * rx1 A * rx1 A - (3 * minimumD4 (rx0 A * minimumD (ry0 A * ry0 A) (ry1 A * ry1 A)) (rx0 A * maximumD (ry0 A * ry0 A) (ry1 A * ry1 A)) (rx1 A * minimumD (ry0 A * ry0 A) (ry1 A * ry1 A)) (rx1 A * maximumD (ry0 A * ry0 A) (ry1 A * ry1 A))) + seedC1re g,
     ry0 = minimumD (FAKTORAre g * ry0 A) (FAKTORAre g * ry1 A) + minimumD (FAKTORAim g * rx0 A) (FAKTORAim g * rx1 A) + 3 * minimumD4 (minimumD (rx0 A * rx0 A) (rx1 A * rx1 A) * ry0 A) (minimumD (rx0 A * rx0 A) (rx1 A * rx1 A) * ry1 A) (maximumD (rx0 A * rx0 A) (rx1 A * rx1 A) * ry0 A) (maximumD (rx0 A * rx0 A) (rx1 A * rx1 A) * ry1 A) - (ry1 A * ry1 A * ry1 A) + seedC0im g,
     ry1 = maximumD (FAKTORAre g * ry0 A) (FAKTORAre g * ry1 A) + maximumD (FAKTORAim g * rx0 A) (FAKTORAim g * rx1 A) + 3 * maximumD4 (minimumD (rx0 A * rx0 A) (rx1 A * rx1 A) * ry0 A) (minimumD (rx0 A * rx0 A) (rx1 A * rx1 A) * ry1 A) (maximumD (rx0 A * rx0 A) (rx1 A * rx1 A) * ry0 A) (maximumD (rx0 A * rx0 A) (rx1 A * rx1 A) * ry1 A) - (ry0 A * ry0 A * ry0 A) + seedC1im g \<rparr>"

definition getBoundingBoxfA_z4azc :: "Globals \<Rightarrow> PlaneRect \<Rightarrow> PlaneRect" where
  "getBoundingBoxfA_z4azc g A = \<lparr>
     rx0 = minimumD4 (FAKTORAre g * rx0 A) (FAKTORAre g * rx1 A) (FAKTORAre g * rx0 A) (FAKTORAre g * rx1 A) - maximumD4 (FAKTORAim g * ry0 A) (FAKTORAim g * ry1 A) (FAKTORAim g * ry0 A) (FAKTORAim g * ry1 A) + minimumD (rx0 A * rx0 A * rx0 A * rx0 A) (rx1 A * rx1 A * rx1 A * rx1 A) - (6 * maximumD4 (minimumD (rx0 A * rx0 A) (rx1 A * rx1 A) * minimumD (ry0 A * ry0 A) (ry1 A * ry1 A)) (minimumD (rx0 A * rx0 A) (rx1 A * rx1 A) * maximumD (ry0 A * ry0 A) (ry1 A * ry1 A)) (maximumD (rx0 A * rx0 A) (rx1 A * rx1 A) * minimumD (ry0 A * ry0 A) (ry1 A * ry1 A)) (maximumD (rx0 A * rx0 A) (rx1 A * rx1 A) * maximumD (ry0 A * ry0 A) (ry1 A * ry1 A))) + minimumD (ry0 A * ry0 A * ry0 A * ry0 A) (ry1 A * ry1 A * ry1 A * ry1 A) + seedC0re g,
     rx1 = maximumD4 (FAKTORAre g * rx0 A) (FAKTORAre g * rx1 A) (FAKTORAre g * rx0 A) (FAKTORAre g * rx1 A) - minimumD4 (FAKTORAim g * ry0 A) (FAKTORAim g * ry1 A) (FAKTORAim g * ry0 A) (FAKTORAim g * ry1 A) + maximumD (rx0 A * rx0 A * rx0 A * rx0 A) (rx1 A * rx1 A * rx1 A * rx1 A) - (6 * minimumD4 (minimumD (rx0 A * rx0 A) (rx1 A * rx1 A) * minimumD (ry0 A * ry0 A) (ry1 A * ry1 A)) (minimumD (rx0 A * rx0 A) (rx1 A * rx1 A) * maximumD (ry0 A * ry0 A) (ry1 A * ry1 A)) (maximumD (rx0 A * rx0 A) (rx1 A * rx1 A) * minimumD (ry0 A * ry0 A) (ry1 A * ry1 A)) (maximumD (rx0 A * rx0 A) (rx1 A * rx1 A) * maximumD (ry0 A * ry0 A) (ry1 A * ry1 A))) + maximumD (ry0 A * ry0 A * ry0 A * ry0 A) (ry1 A * ry1 A * ry1 A * ry1 A) + seedC1re g,
     ry0 = minimumD4 (FAKTORAre g * ry0 A) (FAKTORAre g * ry1 A) (FAKTORAre g * ry0 A) (FAKTORAre g * ry1 A) + minimumD4 (FAKTORAim g * rx0 A) (FAKTORAim g * rx1 A) (FAKTORAim g * rx0 A) (FAKTORAim g * rx1 A) + 4 * minimumD4 ((rx0 A * rx0 A * rx0 A) * ry0 A) ((rx0 A * rx0 A * rx0 A) * ry1 A) ((rx1 A * rx1 A * rx1 A) * ry0 A) ((rx1 A * rx1 A * rx1 A) * ry1 A) - (4 * maximumD4 (rx0 A * (ry0 A * ry0 A * ry0 A)) (rx0 A * (ry1 A * ry1 A * ry1 A)) (rx1 A * (ry0 A * ry0 A * ry0 A)) (rx1 A * (ry1 A * ry1 A * ry1 A))) + seedC0im g,
     ry1 = maximumD4 (FAKTORAre g * ry0 A) (FAKTORAre g * ry1 A) (FAKTORAre g * ry0 A) (FAKTORAre g * ry1 A) + maximumD4 (FAKTORAim g * rx0 A) (FAKTORAim g * rx1 A) (FAKTORAim g * rx0 A) (FAKTORAim g * rx1 A) + 4 * maximumD4 ((rx0 A * rx0 A * rx0 A) * ry0 A) ((rx0 A * rx0 A * rx0 A) * ry1 A) ((rx1 A * rx1 A * rx1 A) * ry0 A) ((rx1 A * rx1 A * rx1 A) * ry1 A) - (4 * minimumD4 (rx0 A * (ry0 A * ry0 A * ry0 A)) (rx0 A * (ry1 A * ry1 A * ry1 A)) (rx1 A * (ry0 A * ry0 A * ry0 A)) (rx1 A * (ry1 A * ry1 A * ry1 A))) + seedC1im g \<rparr>"

definition getBoundingBoxfA_z5azc :: "Globals \<Rightarrow> PlaneRect \<Rightarrow> PlaneRect" where
  "getBoundingBoxfA_z5azc g A = \<lparr>
     rx0 = minimumD4 (FAKTORAre g * rx0 A) (FAKTORAre g * rx1 A) (FAKTORAre g * rx0 A) (FAKTORAre g * rx1 A) - maximumD4 (FAKTORAim g * ry0 A) (FAKTORAim g * ry1 A) (FAKTORAim g * ry0 A) (FAKTORAim g * ry1 A) + rx0 A * rx0 A * rx0 A * rx0 A * rx0 A - (2 * (5 * maximumD4 ((rx0 A * rx0 A * rx0 A) * minimumD (ry0 A * ry0 A) (ry1 A * ry1 A)) ((rx0 A * rx0 A * rx0 A) * maximumD (ry0 A * ry0 A) (ry1 A * ry1 A)) ((rx1 A * rx1 A * rx1 A) * minimumD (ry0 A * ry0 A) (ry1 A * ry1 A)) ((rx1 A * rx1 A * rx1 A) * maximumD (ry0 A * ry0 A) (ry1 A * ry1 A)))) + 5 * minimumD4 (rx0 A * minimumD (ry0 A * ry0 A * ry0 A * ry0 A) (ry1 A * ry1 A * ry1 A * ry1 A)) (rx0 A * maximumD (ry0 A * ry0 A * ry0 A * ry0 A) (ry1 A * ry1 A * ry1 A * ry1 A)) (rx1 A * minimumD (ry0 A * ry0 A * ry0 A * ry0 A) (ry1 A * ry1 A * ry1 A * ry1 A)) (rx1 A * maximumD (ry0 A * ry0 A * ry0 A * ry0 A) (ry1 A * ry1 A * ry1 A * ry1 A)) + seedC0re g,
     rx1 = maximumD4 (FAKTORAre g * rx0 A) (FAKTORAre g * rx1 A) (FAKTORAre g * rx0 A) (FAKTORAre g * rx1 A) - minimumD4 (FAKTORAim g * ry0 A) (FAKTORAim g * ry1 A) (FAKTORAim g * ry0 A) (FAKTORAim g * ry1 A) + rx1 A * rx1 A * rx1 A * rx1 A * rx1 A - (2 * (5 * minimumD4 ((rx0 A * rx0 A * rx0 A) * minimumD (ry0 A * ry0 A) (ry1 A * ry1 A)) ((rx0 A * rx0 A * rx0 A) * maximumD (ry0 A * ry0 A) (ry1 A * ry1 A)) ((rx1 A * rx1 A * rx1 A) * minimumD (ry0 A * ry0 A) (ry1 A * ry1 A)) ((rx1 A * rx1 A * rx1 A) * maximumD (ry0 A * ry0 A) (ry1 A * ry1 A)))) + 5 * maximumD4 (rx0 A * minimumD (ry0 A * ry0 A * ry0 A * ry0 A) (ry1 A * ry1 A * ry1 A * ry1 A)) (rx0 A * maximumD (ry0 A * ry0 A * ry0 A * ry0 A) (ry1 A * ry1 A * ry1 A * ry1 A)) (rx1 A * minimumD (ry0 A * ry0 A * ry0 A * ry0 A) (ry1 A * ry1 A * ry1 A * ry1 A)) (rx1 A * maximumD (ry0 A * ry0 A * ry0 A * ry0 A) (ry1 A * ry1 A * ry1 A * ry1 A)) + seedC1re g,
     ry0 = minimumD4 (FAKTORAre g * ry0 A) (FAKTORAre g * ry1 A) (FAKTORAre g * ry0 A) (FAKTORAre g * ry1 A) + minimumD4 (FAKTORAim g * rx0 A) (FAKTORAim g * rx1 A) (FAKTORAim g * rx0 A) (FAKTORAim g * rx1 A) + 5 * minimumD4 (minimumD (rx0 A * rx0 A * rx0 A * rx0 A) (rx1 A * rx1 A * rx1 A * rx1 A) * ry0 A) (minimumD (rx0 A * rx0 A * rx0 A * rx0 A) (rx1 A * rx1 A * rx1 A * rx1 A) * ry1 A) (maximumD (rx0 A * rx0 A * rx0 A * rx0 A) (rx1 A * rx1 A * rx1 A * rx1 A) * ry0 A) (maximumD (rx0 A * rx0 A * rx0 A * rx0 A) (rx1 A * rx1 A * rx1 A * rx1 A) * ry1 A) - (2 * (5 * maximumD4 (minimumD (rx0 A * rx0 A) (rx1 A * rx1 A) * (ry0 A * ry0 A * ry0 A)) (minimumD (rx0 A * rx0 A) (rx1 A * rx1 A) * (ry1 A * ry1 A * ry1 A)) (maximumD (rx0 A * rx0 A) (rx1 A * rx1 A) * (ry0 A * ry0 A * ry0 A)) (maximumD (rx0 A * rx0 A) (rx1 A * rx1 A) * (ry1 A * ry1 A * ry1 A)))) + ry0 A * ry0 A * ry0 A * ry0 A * ry0 A + seedC0im g,
     ry1 = maximumD4 (FAKTORAre g * ry0 A) (FAKTORAre g * ry1 A) (FAKTORAre g * ry0 A) (FAKTORAre g * ry1 A) + maximumD4 (FAKTORAim g * rx0 A) (FAKTORAim g * rx1 A) (FAKTORAim g * rx0 A) (FAKTORAim g * rx1 A) + 5 * maximumD4 (minimumD (rx0 A * rx0 A * rx0 A * rx0 A) (rx1 A * rx1 A * rx1 A * rx1 A) * ry0 A) (minimumD (rx0 A * rx0 A * rx0 A * rx0 A) (rx1 A * rx1 A * rx1 A * rx1 A) * ry1 A) (maximumD (rx0 A * rx0 A * rx0 A * rx0 A) (rx1 A * rx1 A * rx1 A * rx1 A) * ry0 A) (maximumD (rx0 A * rx0 A * rx0 A * rx0 A) (rx1 A * rx1 A * rx1 A * rx1 A) * ry1 A) - (2 * (5 * minimumD4 (minimumD (rx0 A * rx0 A) (rx1 A * rx1 A) * (ry0 A * ry0 A * ry0 A)) (minimumD (rx0 A * rx0 A) (rx1 A * rx1 A) * (ry1 A * ry1 A * ry1 A)) (maximumD (rx0 A * rx0 A) (rx1 A * rx1 A) * (ry0 A * ry0 A * ry0 A)) (maximumD (rx0 A * rx0 A) (rx1 A * rx1 A) * (ry1 A * ry1 A * ry1 A)))) + ry1 A * ry1 A * ry1 A * ry1 A * ry1 A + seedC1im g \<rparr>"

definition getBoundingBoxfA_z6azc :: "Globals \<Rightarrow> PlaneRect \<Rightarrow> PlaneRect" where
  "getBoundingBoxfA_z6azc g A = \<lparr>
     rx0 = seedC0re g + minimumD (FAKTORAre g * rx0 A) (FAKTORAre g * rx1 A) - maximumD (FAKTORAim g * ry0 A) (FAKTORAim g * ry1 A) + minimumD (rx0 A * rx0 A * rx0 A * rx0 A * rx0 A * rx0 A) (rx1 A * rx1 A * rx1 A * rx1 A * rx1 A * rx1 A) - (3 * (5 * maximumD4 (minimumD (rx0 A * rx0 A * rx0 A * rx0 A) (rx1 A * rx1 A * rx1 A * rx1 A) * minimumD (ry0 A * ry0 A) (ry1 A * ry1 A)) (minimumD (rx0 A * rx0 A * rx0 A * rx0 A) (rx1 A * rx1 A * rx1 A * rx1 A) * maximumD (ry0 A * ry0 A) (ry1 A * ry1 A)) (maximumD (rx0 A * rx0 A * rx0 A * rx0 A) (rx1 A * rx1 A * rx1 A * rx1 A) * minimumD (ry0 A * ry0 A) (ry1 A * ry1 A)) (maximumD (rx0 A * rx0 A * rx0 A * rx0 A) (rx1 A * rx1 A * rx1 A * rx1 A) * maximumD (ry0 A * ry0 A) (ry1 A * ry1 A)))) + 3 * (5 * minimumD4 (minimumD (rx0 A * rx0 A) (rx1 A * rx1 A) * minimumD (ry0 A * ry0 A * ry0 A * ry0 A) (ry1 A * ry1 A * ry1 A * ry1 A)) (minimumD (rx0 A * rx0 A) (rx1 A * rx1 A) * maximumD (ry0 A * ry0 A * ry0 A * ry0 A) (ry1 A * ry1 A * ry1 A * ry1 A)) (maximumD (rx0 A * rx0 A) (rx1 A * rx1 A) * minimumD (ry0 A * ry0 A * ry0 A * ry0 A) (ry1 A * ry1 A * ry1 A * ry1 A)) (maximumD (rx0 A * rx0 A) (rx1 A * rx1 A) * maximumD (ry0 A * ry0 A * ry0 A * ry0 A) (ry1 A * ry1 A * ry1 A * ry1 A))) - maximumD (ry0 A * ry0 A * ry0 A * ry0 A * ry0 A * ry0 A) (ry1 A * ry1 A * ry1 A * ry1 A * ry1 A * ry1 A),
     rx1 = seedC1re g + maximumD (FAKTORAre g * rx0 A) (FAKTORAre g * rx1 A) - minimumD (FAKTORAim g * ry0 A) (FAKTORAim g * ry1 A) + maximumD (rx0 A * rx0 A * rx0 A * rx0 A * rx0 A * rx0 A) (rx1 A * rx1 A * rx1 A * rx1 A * rx1 A * rx1 A) - (3 * (5 * minimumD4 (minimumD (rx0 A * rx0 A * rx0 A * rx0 A) (rx1 A * rx1 A * rx1 A * rx1 A) * minimumD (ry0 A * ry0 A) (ry1 A * ry1 A)) (minimumD (rx0 A * rx0 A * rx0 A * rx0 A) (rx1 A * rx1 A * rx1 A * rx1 A) * maximumD (ry0 A * ry0 A) (ry1 A * ry1 A)) (maximumD (rx0 A * rx0 A * rx0 A * rx0 A) (rx1 A * rx1 A * rx1 A * rx1 A) * minimumD (ry0 A * ry0 A) (ry1 A * ry1 A)) (maximumD (rx0 A * rx0 A * rx0 A * rx0 A) (rx1 A * rx1 A * rx1 A * rx1 A) * maximumD (ry0 A * ry0 A) (ry1 A * ry1 A)))) + 3 * (5 * maximumD4 (minimumD (rx0 A * rx0 A) (rx1 A * rx1 A) * minimumD (ry0 A * ry0 A * ry0 A * ry0 A) (ry1 A * ry1 A * ry1 A * ry1 A)) (minimumD (rx0 A * rx0 A) (rx1 A * rx1 A) * maximumD (ry0 A * ry0 A * ry0 A * ry0 A) (ry1 A * ry1 A * ry1 A * ry1 A)) (maximumD (rx0 A * rx0 A) (rx1 A * rx1 A) * minimumD (ry0 A * ry0 A * ry0 A * ry0 A) (ry1 A * ry1 A * ry1 A * ry1 A)) (maximumD (rx0 A * rx0 A) (rx1 A * rx1 A) * maximumD (ry0 A * ry0 A * ry0 A * ry0 A) (ry1 A * ry1 A * ry1 A * ry1 A))) - minimumD (ry0 A * ry0 A * ry0 A * ry0 A * ry0 A * ry0 A) (ry1 A * ry1 A * ry1 A * ry1 A * ry1 A * ry1 A),
     ry0 = minimumD (FAKTORAre g * ry0 A) (FAKTORAre g * ry1 A) + minimumD (FAKTORAim g * rx0 A) (FAKTORAim g * rx1 A) + 6 * minimumD4 ((rx0 A * rx0 A * rx0 A * rx0 A * rx0 A) * ry0 A) ((rx0 A * rx0 A * rx0 A * rx0 A * rx0 A) * ry1 A) ((rx1 A * rx1 A * rx1 A * rx1 A * rx1 A) * ry0 A) ((rx1 A * rx1 A * rx1 A * rx1 A * rx1 A) * ry1 A) - (4 * (5 * maximumD4 ((rx0 A * rx0 A * rx0 A) * (ry0 A * ry0 A * ry0 A)) ((rx0 A * rx0 A * rx0 A) * (ry1 A * ry1 A * ry1 A)) ((rx1 A * rx1 A * rx1 A) * (ry0 A * ry0 A * ry0 A)) ((rx1 A * rx1 A * rx1 A) * (ry1 A * ry1 A * ry1 A)))) + 6 * minimumD4 (rx0 A * (ry0 A * ry0 A * ry0 A * ry0 A * ry0 A)) (rx0 A * (ry1 A * ry1 A * ry1 A * ry1 A * ry1 A)) (rx1 A * (ry0 A * ry0 A * ry0 A * ry0 A * ry0 A)) (rx1 A * (ry1 A * ry1 A * ry1 A * ry1 A * ry1 A)) + seedC0im g,
     ry1 = maximumD (FAKTORAre g * ry0 A) (FAKTORAre g * ry1 A) + maximumD (FAKTORAim g * rx0 A) (FAKTORAim g * rx1 A) + 6 * maximumD4 ((rx0 A * rx0 A * rx0 A * rx0 A * rx0 A) * ry0 A) ((rx0 A * rx0 A * rx0 A * rx0 A * rx0 A) * ry1 A) ((rx1 A * rx1 A * rx1 A * rx1 A * rx1 A) * ry0 A) ((rx1 A * rx1 A * rx1 A * rx1 A * rx1 A) * ry1 A) - (4 * (5 * minimumD4 ((rx0 A * rx0 A * rx0 A) * (ry0 A * ry0 A * ry0 A)) ((rx0 A * rx0 A * rx0 A) * (ry1 A * ry1 A * ry1 A)) ((rx1 A * rx1 A * rx1 A) * (ry0 A * ry0 A * ry0 A)) ((rx1 A * rx1 A * rx1 A) * (ry1 A * ry1 A * ry1 A)))) + 6 * maximumD4 (rx0 A * (ry0 A * ry0 A * ry0 A * ry0 A * ry0 A)) (rx0 A * (ry1 A * ry1 A * ry1 A * ry1 A * ry1 A)) (rx1 A * (ry0 A * ry0 A * ry0 A * ry0 A * ry0 A)) (rx1 A * (ry1 A * ry1 A * ry1 A * ry1 A * ry1 A)) + seedC1im g \<rparr>"

text \<open>
  \<open>setfunc\<close> installs the evaluator for \<open>_FUNC\<close> in the function pointer
  \<open>getBoundingBoxfA\<close>; every value outside the enum takes the \<open>default\<close> branch.
\<close>

definition getBoundingBoxfA :: "Globals \<Rightarrow> PlaneRect \<Rightarrow> PlaneRect" where
  "getBoundingBoxfA g A =
     (if FUNC g = FUNC_Z3AZC then getBoundingBoxfA_z3azc g A
      else if FUNC g = FUNC_Z4AZC then getBoundingBoxfA_z4azc g A
      else if FUNC g = FUNC_Z5AZC then getBoundingBoxfA_z5azc g A
      else if FUNC g = FUNC_Z6AZC then getBoundingBoxfA_z6azc g A
      else if FUNC g = FUNC_Z2AZC then getBoundingBoxfA_z2azc g A
      else getBoundingBoxfA_z2c g A)"


section \<open>Fatal errors\<close>

text \<open>
  Every \<open>exit(99)\<close> of main.cpp is a value of \<open>error\<close>, named after the message the
  program logs before it exits.
\<close>

datatype error =
    ArenaExhausted
  | TooManyRoots
  | Set32NullRow
  | Set32Range
  | MaxmemReached
  | Maxmem2Reached
  | NoCriticalPoints
  | NoCriticalOrbits

text \<open>A \<open>for\<close> loop without \<open>break\<close> whose body may exit: the state is threaded.\<close>

fun foldE :: "('s \<Rightarrow> 'a \<Rightarrow> error + 's) \<Rightarrow> 'a list \<Rightarrow> 's \<Rightarrow> error + 's" where
  "foldE f [] s = Inr s"
| "foldE f (x # xs) s = (case f s x of Inl e \<Rightarrow> Inl e | Inr s' \<Rightarrow> foldE f xs s')"

section \<open>Arena allocator (struct ArrayDDByteManager)\<close>

text \<open>
  A block returned by \<open>new DDBYTE[allocatePerBlock]\<close> is named by a natural number;
  \<open>heap_next\<close> is the name the next \<open>new\<close> returns, so that blocks that are live at the
  same time have different names. A \<open>PDDBYTE\<close> is a block with an offset in it. The
  pointer table \<open>ptr\<close> holds its first \<open>anzptr\<close> entries; \<open>current = None\<close> is the NULL
  pointer. A failing \<open>new\<close> is not modelled.
\<close>

type_synonym PDDBYTE = "nat \<times> int"

record ArrayDDByteManager =
  current :: "nat option"
  allocatedIdx :: int
  freeFromIdx :: int
  allocatePerBlock :: int
  ptr :: "nat list"
  anzptr :: int
  heap_next :: nat

definition ArrayDDByteManager_init :: ArrayDDByteManager where
  "ArrayDDByteManager_init =
     \<lparr> current = None, allocatedIdx = 0, freeFromIdx = - 1,
       allocatePerBlock = CHUNKSIZE div 4, ptr = [], anzptr = 0, heap_next = 0 \<rparr>"

definition FreeAll :: "ArrayDDByteManager \<Rightarrow> ArrayDDByteManager" where
  "FreeAll mgr = mgr\<lparr> ptr := [], current := None, anzptr := 0 \<rparr>"

definition getMemory :: "ArrayDDByteManager \<Rightarrow> int \<Rightarrow> error + (ArrayDDByteManager \<times> PDDBYTE)" where
  "getMemory mgr aanz =
     (if anzptr mgr \<ge> MAXPTR - 8 then Inl ArenaExhausted
      else
        let mgr =
              (if current mgr = None \<or> freeFromIdx mgr + aanz + 2 \<ge> allocatedIdx mgr
               then mgr\<lparr> ptr := ptr mgr @ [heap_next mgr],
                         current := Some (heap_next mgr),
                         anzptr := anzptr mgr + 1,
                         freeFromIdx := 0,
                         allocatedIdx := allocatePerBlock mgr,
                         heap_next := Suc (heap_next mgr) \<rparr>
               else mgr);
            p = (the (current mgr), freeFromIdx mgr)
        in Inr (mgr\<lparr> freeFromIdx := freeFromIdx mgr + aanz \<rparr>, p))"

text \<open>
  A run of \<open>getMemory\<close> calls with no \<open>FreeAll\<close> in between; the result lists each
  returned pointer with the size that was asked for.
\<close>

fun getMemory_calls ::
  "ArrayDDByteManager \<Rightarrow> int list \<Rightarrow> error + (ArrayDDByteManager \<times> (PDDBYTE \<times> int) list)" where
  "getMemory_calls mgr [] = Inr (mgr, [])"
| "getMemory_calls mgr (aanz # rest) =
     (case getMemory mgr aanz of
        Inl e \<Rightarrow> Inl e
      | Inr (mgr', p) \<Rightarrow>
          (case getMemory_calls mgr' rest of
             Inl e \<Rightarrow> Inl e
           | Inr (mgr'', ps) \<Rightarrow> Inr (mgr'', (p, aanz) # ps)))"

text \<open>
  The words of an allocation, and the word store they live in: \<open>p[m] = v\<close> writes the
  word at offset \<open>m\<close> of the allocation \<open>p\<close>.
\<close>

definition words_of :: "PDDBYTE \<times> int \<Rightarrow> (nat \<times> int) set" where
  "words_of pa = (case pa of ((b, off), aanz) \<Rightarrow> {(b, i) | i. off \<le> i \<and> i < off + aanz})"

type_synonym store = "nat \<times> int \<Rightarrow> DDBYTE"

definition write_word :: "store \<Rightarrow> PDDBYTE \<Rightarrow> int \<Rightarrow> DDBYTE \<Rightarrow> store" where
  "write_word st p m v = (case p of (b, off) \<Rightarrow> st((b, off + m) := v))"

definition read_word :: "store \<Rightarrow> PDDBYTE \<Rightarrow> int \<Rightarrow> DDBYTE" where
  "read_word st p m = (case p of (b, off) \<Rightarrow> st (b, off + m))"

section \<open>Cell-mapping propagator (cm_local)\<close>

definition scrcoord_as_lowerleft :: "Globals \<Rightarrow> real \<Rightarrow> int" where
  "scrcoord_as_lowerleft g a = \<lfloor>(a - COMPLETE0 g) * scalePixelPerRange g\<rfloor>"

definition SQUARE_LIES_ENTIRELY_IN_LOCAL :: "Globals \<Rightarrow> PlaneRect \<Rightarrow> bool" where
  "SQUARE_LIES_ENTIRELY_IN_LOCAL g BBX \<longleftrightarrow>
     rx0 (local_rect g) \<le> rx0 BBX \<and> rx1 BBX \<le> rx1 (local_rect g) \<and>
     ry0 (local_rect g) \<le> ry0 BBX \<and> ry1 BBX \<le> ry1 (local_rect g)"

definition SQUARE_LIES_ENTIRELY_IN_COMPLETE :: "Globals \<Rightarrow> PlaneRect \<Rightarrow> bool" where
  "SQUARE_LIES_ENTIRELY_IN_COMPLETE g BBX \<longleftrightarrow>
     COMPLETE0 g \<le> rx0 BBX \<and> rx1 BBX \<le> COMPLETE1 g \<and>
     COMPLETE0 g \<le> ry0 BBX \<and> ry1 BBX \<le> COMPLETE1 g"

text \<open>
  The local variables of \<open>cm_local\<close> that describe the grid of one refinement level:
  \<open>mem0_all\<close> and \<open>mem1_all\<close> are the locals \<open>mem0\<close> and \<open>mem1\<close>. A row of \<open>ispotwY\<close> is
  \<open>None\<close> for the NULL pointer and otherwise the words the row pointer refers to (the
  arena keeps the rows apart, see \<open>getMemory\<close>). The 0/1 flags \<open>ywithgray\<close>, \<open>changed\<close>,
  \<open>fchanged\<close>, \<open>graythere\<close> and \<open>hitspotentiallywhite\<close> are booleans.
\<close>

record Grid =
  enclosementall :: ScreenRect
  mem0_all :: int
  mem1_all :: int
  ispotwY :: "DDBYTE list option list"
  ywithgray :: "bool list"

text \<open>C's remainder \<open>%\<close> truncates towards zero.\<close>

definition c_rem :: "int \<Rightarrow> int \<Rightarrow> int" where
  "c_rem a b = a - b * (sgn a * sgn b * (\<bar>a\<bar> div \<bar>b\<bar>))"

definition SET32_MY :: "Grid \<Rightarrow> int \<Rightarrow> int \<Rightarrow> DDBYTE \<Rightarrow> error + Grid" where
  "SET32_MY G MM YY FF32 =
     (if MM \<ge> mem0_all G \<and> MM \<le> mem1_all G \<and>
         YY \<ge> sy0 (enclosementall G) \<and> YY \<le> sy1 (enclosementall G)
      then (case ispotwY G ! nat (YY - sy0 (enclosementall G)) of
              Some row \<Rightarrow>
                Inr (G\<lparr> ispotwY := (ispotwY G)[nat (YY - sy0 (enclosementall G)) :=
                                      Some (row[nat (MM - mem0_all G) := FF32])] \<rparr>)
            | None \<Rightarrow> Inl Set32NullRow)
      else Inl Set32Range)"

definition GET32_MY :: "Grid \<Rightarrow> int \<Rightarrow> int \<Rightarrow> DDBYTE" where
  "GET32_MY G MM YY =
     (if YY \<ge> sy0 (enclosementall G) \<and> YY \<le> sy1 (enclosementall G)
      then (case ispotwY G ! nat (YY - sy0 (enclosementall G)) of
              Some row \<Rightarrow>
                (if MM \<ge> mem0_all G \<and> MM \<le> mem1_all G
                 then row ! nat (MM - mem0_all G) else ALL32POTW)
            | None \<Rightarrow> ALL32POTW)
      else ALL32POTW)"

definition CELLCOLOR_XY :: "Grid \<Rightarrow> int \<Rightarrow> int \<Rightarrow> BYTE" where
  "CELLCOLOR_XY G XX YY =
     (if XX \<ge> sx0 (enclosementall G) \<and> XX \<le> sx1 (enclosementall G) \<and>
         YY \<ge> sy0 (enclosementall G) \<and> YY \<le> sy1 (enclosementall G)
      then (let bmem = XX div 2 ^ SHIFTPERDDBYTE;
                f32 = GET32_MY G bmem YY;
                bbit = c_rem XX (2 ^ SHIFTPERDDBYTE)
            in ucast (drop_bit (nat bbit) f32 AND 1))
      else SQUARE_POTW)"

definition TRIM :: "int \<Rightarrow> int \<Rightarrow> int" where
  "TRIM SCREENWIDTH WW =
     (if WW < 0 then 0 else if WW \<ge> SCREENWIDTH then SCREENWIDTH - 1 else WW)"

text \<open>
  The body of the first loop over the periodic points (lines 913-946): the clamped
  rectangle of point \<open>k\<close>, the running union \<open>enclosementall\<close> and the ranges written to
  \<open>onecycle.cycle[k]\<close>.
\<close>

definition point_rect :: "Globals \<Rightarrow> int \<Rightarrow> PeriodicPoint \<Rightarrow> ScreenRect" where
  "point_rect g SCREENWIDTH p =
     (let xx = scrcoord_as_lowerleft g (Re (pp p));
          yy = scrcoord_as_lowerleft g (Im (pp p))
      in \<lparr> sx0 = TRIM SCREENWIDTH (xx - ENCLOSEMENTWIDTH g),
           sx1 = TRIM SCREENWIDTH (xx + ENCLOSEMENTWIDTH g),
           sy0 = TRIM SCREENWIDTH (yy - ENCLOSEMENTWIDTH g),
           sy1 = TRIM SCREENWIDTH (yy + ENCLOSEMENTWIDTH g) \<rparr>)"

definition enclose_point ::
  "Globals \<Rightarrow> int \<Rightarrow> int \<Rightarrow> ScreenRect \<times> PeriodicPoint list \<Rightarrow> nat
     \<Rightarrow> error + (ScreenRect \<times> PeriodicPoint list)" where
  "enclose_point g SCREENWIDTH MAXMEM st k =
     (case st of (encl, cyc) \<Rightarrow>
        let scr = point_rect g SCREENWIDTH (cyc ! k);
            encl = (if sx0 scr < sx0 encl then encl\<lparr> sx0 := sx0 scr \<rparr> else encl);
            encl = (if sx1 scr > sx1 encl then encl\<lparr> sx1 := sx1 scr \<rparr> else encl);
            encl = (if sy0 scr < sy0 encl then encl\<lparr> sy0 := sy0 scr \<rparr> else encl);
            encl = (if sy1 scr > sy1 encl then encl\<lparr> sy1 := sy1 scr \<rparr> else encl);
            cyc = cyc[k := (cyc ! k)\<lparr> mem0 := sx0 scr div 2 ^ SHIFTPERDDBYTE,
                                      mem1 := sx1 scr div 2 ^ SHIFTPERDDBYTE \<rparr>]
        in if mem1 (cyc ! k) \<ge> MAXMEM then Inl MaxmemReached
           else Inr (encl, cyc[k := (cyc ! k)\<lparr> py0 := sy0 scr, py1 := sy1 scr \<rparr>]))"

text \<open>Lines 975-979: the rows that meet the rectangle of a periodic point.\<close>

definition mark_rows :: "ScreenRect \<Rightarrow> PeriodicPoint list \<Rightarrow> nat \<Rightarrow> bool list \<Rightarrow> bool list" where
  "mark_rows encl cyc n yw =
     foldl (\<lambda>yw k. foldl (\<lambda>yw y. yw[nat (y - sy0 encl) := True]) yw
                       [py0 (cyc ! k)..py1 (cyc ! k)])
       yw [0..<n]"

text \<open>Lines 992-1006: one \<open>getMemory\<close> call for each marked row, filled with \<open>startwith\<close>.\<close>

definition alloc_row ::
  "bool list \<Rightarrow> int \<Rightarrow> DDBYTE \<Rightarrow> ArrayDDByteManager \<times> DDBYTE list option list \<Rightarrow> nat
     \<Rightarrow> error + (ArrayDDByteManager \<times> DDBYTE list option list)" where
  "alloc_row yw LOCALLENX startwith st y =
     (case st of (mgr, rows) \<Rightarrow>
        if yw ! y
        then (case getMemory mgr LOCALLENX of
                Inl e \<Rightarrow> Inl e
              | Inr (mgr', p) \<Rightarrow>
                  Inr (mgr', rows[y := Some (replicate (nat LOCALLENX) startwith)]))
        else Inr (mgr, rows[y := None]))"

text \<open>Lines 1010-1016: the rectangle of every periodic point is set to GRAY.\<close>

definition stamp_cycle :: "Grid \<Rightarrow> PeriodicPoint list \<Rightarrow> nat \<Rightarrow> error + Grid" where
  "stamp_cycle G cyc n =
     foldE (\<lambda>G k.
        foldE (\<lambda>G y.
           foldE (\<lambda>G m. SET32_MY G m y ALL32GRAY) [mem0 (cyc ! k)..mem1 (cyc ! k)] G)
          [py0 (cyc ! k)..py1 (cyc ! k)] G)
       [0..<n] G"

text \<open>
  Lines 1092-1102: does the pixel rectangle \<open>scr\<close> meet a cell that reads as POTW?
\<close>

definition hits_potw :: "Grid \<Rightarrow> ScreenRect \<Rightarrow> bool" where
  "hits_potw G scr =
     list_ex (\<lambda>b_y. list_ex (\<lambda>b_x. CELLCOLOR_XY G b_x b_y = SQUARE_POTW) [sx0 scr..sx1 scr])
       [sy0 scr..sy1 scr]"

text \<open>
  The body of the loop over the 32 bits of one word (lines 1060-1109). The state is
  \<open>(ff, fneu, fchanged, graythere)\<close>, \<open>bitno\<close> is the loop variable \<open>bit\<close>; the grid is read,
  not written.
\<close>

definition bit_body ::
  "Globals \<Rightarrow> Grid \<Rightarrow> int \<Rightarrow> real \<Rightarrow> real \<Rightarrow> DDBYTE \<times> DDBYTE \<times> bool \<times> bool \<Rightarrow> nat
     \<Rightarrow> DDBYTE \<times> DDBYTE \<times> bool \<times> bool" where
  "bit_body g G xcoord0 Ay0 Ay1 st bitno =
     (case st of (ff, fneu, fchanged, graythere) \<Rightarrow>
        let tmpf = (ucast (ff AND 1) :: BYTE);
            ff = drop_bit 1 ff
        in if tmpf = SQUARE_POTW then (ff, fneu, fchanged, graythere)
           else
             let xc = xcoord0 + int bitno;
                 Ax0 = real_of_int xc * scaleRangePerPixel g + COMPLETE0 g;
                 A = \<lparr> rx0 = Ax0, rx1 = Ax0 + scaleRangePerPixel g, ry0 = Ay0, ry1 = Ay1 \<rparr>;
                 bbxfA = getBoundingBoxfA g A
             in if \<not> SQUARE_LIES_ENTIRELY_IN_LOCAL g bbxfA \<or>
                   \<not> SQUARE_LIES_ENTIRELY_IN_COMPLETE g bbxfA
                then (ff, fneu OR push_bit bitno 1, True, True)
                else
                  let scr = \<lparr> sx0 = scrcoord_as_lowerleft g (rx0 bbxfA),
                              sx1 = scrcoord_as_lowerleft g (rx1 bbxfA),
                              sy0 = scrcoord_as_lowerleft g (ry0 bbxfA),
                              sy1 = scrcoord_as_lowerleft g (ry1 bbxfA) \<rparr>
                  in if hits_potw G scr
                     then (ff, fneu OR push_bit bitno 1, True, True)
                     else (ff, fneu, fchanged, True))"

text \<open>
  The body of the loop over the words of a row (lines 1051-1115); the state is
  \<open>(grid, changed, graythere)\<close>.
\<close>

definition word_body ::
  "Globals \<Rightarrow> int \<Rightarrow> real \<Rightarrow> real \<Rightarrow> Grid \<times> bool \<times> bool \<Rightarrow> int
     \<Rightarrow> error + (Grid \<times> bool \<times> bool)" where
  "word_body g y Ay0 Ay1 st m =
     (case st of (G, changed, graythere) \<Rightarrow>
        let ff = GET32_MY G m y
        in if ff = ALL32POTW then Inr (G, changed, graythere)
           else
             (case foldl (bit_body g G (m * 2 ^ SHIFTPERDDBYTE) Ay0 Ay1)
                     (ff, ff, False, graythere) [0..<32] of
                (ff', fneu, fchanged, graythere') \<Rightarrow>
                  if fchanged
                  then (case SET32_MY G m y fneu of
                          Inl e \<Rightarrow> Inl e
                        | Inr G' \<Rightarrow> Inr (G', True, graythere'))
                  else Inr (G, changed, graythere')))"

text \<open>The body of the loop over the rows (lines 1044-1120); the state is \<open>(grid, changed)\<close>.\<close>

definition row_body :: "Globals \<Rightarrow> Grid \<times> bool \<Rightarrow> int \<Rightarrow> error + (Grid \<times> bool)" where
  "row_body g st y =
     (case st of (G, changed) \<Rightarrow>
        if \<not> ywithgray G ! nat (y - sy0 (enclosementall G)) then Inr (G, changed)
        else
          let Ay0 = real_of_int y * scaleRangePerPixel g + COMPLETE0 g;
              Ay1 = Ay0 + scaleRangePerPixel g
          in (case foldE (word_body g y Ay0 Ay1) [mem0_all G..mem1_all G] (G, changed, False) of
                Inl e \<Rightarrow> Inl e
              | Inr (G', changed', graythere) \<Rightarrow>
                  Inr (if \<not> graythere
                       then G'\<lparr> ywithgray := (ywithgray G')[nat (y - sy0 (enclosementall G')) := False] \<rparr>
                       else G',
                       changed')))"

text \<open>One pass of the \<open>while\<close> body: \<open>changed = 0\<close>, then every row.\<close>

definition sweep :: "Globals \<Rightarrow> Grid \<Rightarrow> error + (Grid \<times> bool)" where
  "sweep g G = foldE (row_body g) [sy0 (enclosementall G)..sy1 (enclosementall G)] (G, False)"

text \<open>
  The loop \<open>while (changed > 0)\<close>, entered with \<open>changed = 1\<close>. \<open>None\<close> stands for a loop
  that does not end.
\<close>

partial_function (option) propagate :: "Globals \<Rightarrow> Grid \<Rightarrow> (error + Grid) option" where
  "propagate g G =
     (case sweep g G of
        Inl e \<Rightarrow> Some (Inl e)
      | Inr (G', changed) \<Rightarrow> if changed then propagate g G' else Some (Inr G'))"

declare propagate.simps [code]

text \<open>Lines 1125-1139: is a word of an allocated row different from \<open>ALL32POTW\<close>?\<close>

definition gray_present :: "Grid \<Rightarrow> nat \<Rightarrow> nat \<Rightarrow> bool" where
  "gray_present G LOCALLENY LOCALLENX =
     list_ex (\<lambda>y. case ispotwY G ! y of
                     None \<Rightarrow> False
                   | Some row \<Rightarrow> list_ex (\<lambda>m. row ! m \<noteq> ALL32POTW) [0..<LOCALLENX])
       [0..<LOCALLENY]"

text \<open>
  The set-up of one refinement level (lines 907-1016): the globals with the scale factors
  and \<open>local\<close> of this level, the cycle with its ranges, and the primed grid.
  \<open>1 << REFINEMENT\<close> is \<open>2 ^ REFINEMENT\<close> for \<open>0 \<le> REFINEMENT \<le> 30\<close>; the results below
  are stated for these levels.
\<close>

definition level_setup ::
  "Globals \<Rightarrow> DDBYTE \<Rightarrow> int \<Rightarrow> Root \<Rightarrow> ArrayDDByteManager
     \<Rightarrow> error + (Globals \<times> Root \<times> ArrayDDByteManager \<times> Grid)" where
  "level_setup g startwith REFINEMENT onecycle mgr =
     (let SCREENWIDTH = (2 :: int) ^ nat REFINEMENT;
          MAXMEM = SCREENWIDTH div 2 ^ SHIFTPERDDBYTE;
          g = g\<lparr> scaleRangePerPixel := (COMPLETE1 g - COMPLETE0 g) / real_of_int SCREENWIDTH \<rparr>;
          g = g\<lparr> scalePixelPerRange := real_of_int SCREENWIDTH / (COMPLETE1 g - COMPLETE0 g) \<rparr>;
          encl0 = \<lparr> sx0 = SCREENWIDTH, sx1 = 0, sy0 = SCREENWIDTH, sy1 = 0 \<rparr>
      in case foldE (enclose_point g SCREENWIDTH MAXMEM) [0..<nat (cyclelen onecycle)]
                (encl0, cycle onecycle) of
           Inl e \<Rightarrow> Inl e
         | Inr (encl, cyc) \<Rightarrow>
             let onecycle = onecycle\<lparr> cycle := cyc \<rparr>;
                 m0 = sx0 encl div 2 ^ SHIFTPERDDBYTE;
                 m1 = sx1 encl div 2 ^ SHIFTPERDDBYTE
             in if m1 \<ge> MAXMEM then Inl Maxmem2Reached
                else
                  let loc = \<lparr> rx0 = real_of_int (sx0 encl) * scaleRangePerPixel g + COMPLETE0 g,
                              rx1 = real_of_int (sx1 encl + 1) * scaleRangePerPixel g + COMPLETE0 g,
                              ry0 = real_of_int (sy0 encl) * scaleRangePerPixel g + COMPLETE0 g,
                              ry1 = real_of_int (sy1 encl + 1) * scaleRangePerPixel g + COMPLETE0 g \<rparr>;
                      g = g\<lparr> local_rect := loc \<rparr>;
                      onecycle = onecycle\<lparr> ps_basinrect := loc \<rparr>;
                      LOCALLENY = sy1 encl - sy0 encl + 1;
                      LOCALLENX = m1 - m0 + 1;
                      yw = mark_rows encl (cycle onecycle) (nat (cyclelen onecycle))
                             (replicate (nat LOCALLENY) False);
                      mgr = FreeAll mgr
                  in case foldE (alloc_row yw LOCALLENX startwith) [0..<nat LOCALLENY]
                            (mgr, replicate (nat LOCALLENY) None) of
                       Inl e \<Rightarrow> Inl e
                     | Inr (mgr, rows) \<Rightarrow>
                         (case stamp_cycle
                                 \<lparr> enclosementall = encl, mem0_all = m0, mem1_all = m1,
                                   ispotwY = rows, ywithgray = yw \<rparr>
                                 (cycle onecycle) (nat (cyclelen onecycle)) of
                            Inl e \<Rightarrow> Inl e
                          | Inr G \<Rightarrow> Inr (g, onecycle, mgr, G)))"

text \<open>
  One iteration of the loop over \<open>REFINEMENT\<close>: set-up, propagation and the scan for GRAY
  words; the last component is \<open>interiorpresentat\<close>.
\<close>

definition cm_level ::
  "DDBYTE \<Rightarrow> int \<Rightarrow> Globals \<times> Root \<times> ArrayDDByteManager
     \<Rightarrow> (error + (Globals \<times> Root \<times> ArrayDDByteManager \<times> int)) option" where
  "cm_level startwith REFINEMENT st =
     (case st of (g, onecycle, mgr) \<Rightarrow>
        (case level_setup g startwith REFINEMENT onecycle mgr of
           Inl e \<Rightarrow> Some (Inl e)
         | Inr (g', onecycle', mgr', G) \<Rightarrow>
             (case propagate g' G of
                None \<Rightarrow> None
              | Some (Inl e) \<Rightarrow> Some (Inl e)
              | Some (Inr G') \<Rightarrow>
                  let LOCALLENY = sy1 (enclosementall G') - sy0 (enclosementall G') + 1;
                      LOCALLENX = mem1_all G' - mem0_all G' + 1;
                      interiorpresentat =
                        (if gray_present G' (nat LOCALLENY) (nat LOCALLENX) then REFINEMENT else 0)
                  in Some (Inr (g', onecycle', mgr', interiorpresentat)))))"

text \<open>The loop over \<open>REFINEMENT\<close> with its \<open>break\<close> on \<open>interiorpresentat > 0\<close>.\<close>

fun level_loop ::
  "DDBYTE \<Rightarrow> int list \<Rightarrow> Globals \<times> Root \<times> ArrayDDByteManager \<times> int
     \<Rightarrow> (error + (Globals \<times> Root \<times> ArrayDDByteManager \<times> int)) option" where
  "level_loop startwith [] st = Some (Inr st)"
| "level_loop startwith (REFINEMENT # rest) (g, onecycle, mgr, interiorpresentat) =
     (case cm_level startwith REFINEMENT (g, onecycle, mgr) of
        None \<Rightarrow> None
      | Some (Inl e) \<Rightarrow> Some (Inl e)
      | Some (Inr (g', onecycle', mgr', ip)) \<Rightarrow>
          if ip > 0 then Some (Inr (g', onecycle', mgr', ip))
          else level_loop startwith rest (g', onecycle', mgr', ip))"

text \<open>
  \<open>cm_local\<close>: the result is the returned level with the root as the call leaves it.
\<close>

definition cm_local :: "Globals \<Rightarrow> Root \<Rightarrow> DDBYTE \<Rightarrow> (error + (int \<times> Root)) option" where
  "cm_local g onecycle startwith =
     (let mgr = ArrayDDByteManager_init;
          onecycle = onecycle\<lparr> interiorfound := 0 \<rparr>
      in case level_loop startwith [LEVEL0 g..LEVEL1 g] (g, onecycle, mgr, 0) of
           None \<Rightarrow> None
         | Some (Inl e) \<Rightarrow> Some (Inl e)
         | Some (Inr (g', onecycle', mgr', interiorpresentat)) \<Rightarrow>
             Some (Inr (interiorpresentat, onecycle'\<lparr> interiorfound := interiorpresentat \<rparr>)))"

section \<open>Lagrange bound, critical points and critical orbits\<close>

text \<open>
  The C expression \<open>1 << expo\<close> on the 32-bit \<open>int\<close> 1: the bits of 1 moved \<open>expo\<close> places
  and read as a signed number, which is \<open>2 ^ expo\<close> for \<open>0 \<le> expo \<le> 30\<close> and \<open>- 2 ^ 31\<close> for
  \<open>expo = 31\<close> (the value C++20 gives and compilers for two's complement machines gave
  before it). For a negative \<open>expo\<close> and for \<open>expo \<ge> 32\<close> C++ leaves the shift undefined
  (an x86 processor takes the count modulo 32): the result is \<open>None\<close>.
\<close>

definition shift_left_1 :: "int \<Rightarrow> int option" where
  "shift_left_1 expo =
     (if 0 \<le> expo \<and> expo \<le> 31 then Some (sint (push_bit (nat expo) (1 :: 32 word)))
      else None)"

text \<open>
  \<open>getLagrange\<close> reads the loop bound from its argument \<open>f\<close> and the coefficients from the
  global \<open>fkt\<close>. The value of the expression \<open>log(x)/log(2.0)\<close> depends on how the C library
  rounds \<open>log\<close> and on the rounding of the division, so it is a parameter of the model:
  \<open>log2q x\<close> is the double that \<open>log(x)/log(2.0)\<close> evaluates to (with IEEE doubles and
  glibc, \<open>log(536870912.0)/log(2.0)\<close> is \<open>29.000000000000004\<close>, which is \<open>29 + 2^-48\<close>). The
  sum, the norms and the division of \<open>res\<close> are exact.
\<close>

definition getLagrange :: "(real \<Rightarrow> real) \<Rightarrow> Globals \<Rightarrow> Polynom \<Rightarrow> int option" where
  "getLagrange log2q g f =
     (let res = foldl (\<lambda>res i. res + norm_c (coeff (fkt g) ! i)) 1 [0..<nat (grad f + 1)];
          res = res / norm_c (coeff (fkt g) ! nat (grad (fkt g)));
          expo = \<lceil>log2q (real_of_int \<lceil>res\<rceil>)\<rceil>
      in shift_left_1 expo)"

definition ableitenFA :: "Polynom \<Rightarrow> Polynom" where
  "ableitenFA infkt =
     foldl (\<lambda>ergabl i.
              if coeffnull infkt ! nat i = 0
              then setCoeff ergabl (i - 1) (Complex (real_of_int i) 0 * coeff infkt ! nat i)
              else ergabl)
       (clearCoeff empty_Polynom) [1..grad infkt]"

text \<open>
  \<open>newton\<close>: the loop \<open>for (i = 1; i < MAXIT; i++)\<close>; the first argument of \<open>newton_loop\<close>
  counts the iterations that are left. The result is the returned iteration count with
  the value of the reference parameter \<open>erg\<close>.
\<close>

fun newton_loop ::
  "nat \<Rightarrow> Polynom \<Rightarrow> Polynom \<Rightarrow> int \<Rightarrow> complex \<Rightarrow> complex \<Rightarrow> int \<times> complex" where
  "newton_loop 0 polyf polyabl i z erg = (0, erg)"
| "newton_loop (Suc n) polyf polyabl i z erg =
     (let zletzt = z;
          f = eval_arg_f polyf z;
          fabl = eval_arg_f polyabl z;
          z = z - f / fabl;
          d = z - zletzt
      in if normQ d < ZEROEPSILON then (i, z)
         else newton_loop n polyf polyabl (i + 1) z erg)"

definition newton :: "Globals \<Rightarrow> Polynom \<Rightarrow> Polynom \<Rightarrow> complex \<Rightarrow> complex \<Rightarrow> int \<times> complex" where
  "newton g polyf polyabl astart erg = newton_loop (nat (MAXIT g - 1)) polyf polyabl 1 astart erg"

definition Root_clear :: "Root \<Rightarrow> Root" where
  "Root_clear r = r\<lparr> cyclelen := 0, cycle := [], interiorfound := 0, multiplier := 0 \<rparr>"

text \<open>An entry of the static table \<open>zero\<close> that has not been written yet.\<close>

definition zero_Root :: Root where
  "zero_Root = \<lparr> attractor = Complex 0 0, cycle = [],
                 ps_basinrect = \<lparr> rx0 = 0, rx1 = 0, ry0 = 0, ry1 = 0 \<rparr>,
                 interiorfound = 0, cyclelen = 0, cyclenumber = 0, multiplier = 0 \<rparr>"

definition getNullstellenIdx :: "Root list \<Rightarrow> complex \<Rightarrow> error + (Root list \<times> int)" where
  "getNullstellenIdx zero aw =
     (case List.find (\<lambda>i. normQ (attractor (zero ! i) - aw) < ZEROEPSILON) [0..<length zero] of
        Some i \<Rightarrow> Inr (zero, int i)
      | None \<Rightarrow>
          if int (length zero) > MAXZEROS - 8 then Inl TooManyRoots
          else Inr (zero @ [(Root_clear zero_Root)\<lparr> attractor := aw \<rparr>], int (length zero)))"

text \<open>
  The macro \<open>SUCHE(X0,Y0,X1,Y1)\<close>: the inner loop over \<open>x\<close> and the outer loop over \<open>y\<close>,
  each \<open>for (v = V0; v <= V1; v += vd)\<close> with the two \<open>break\<close>s. \<open>None\<close> stands for a
  loop that does not end.
\<close>

partial_function (option) SUCHE_x ::
  "Globals \<Rightarrow> Polynom \<Rightarrow> Polynom \<Rightarrow> real \<Rightarrow> int \<Rightarrow> int \<Rightarrow> int \<Rightarrow> real \<Rightarrow> int \<Rightarrow> Root list
     \<Rightarrow> (error + Root list) option" where
  "SUCHE_x g fktforcp ablforcp sk SCRRE0 X1 xd start_im x zero =
     (if x \<le> X1
      then (let start = Complex (real_of_int x * sk + real_of_int SCRRE0) start_im;
                r = newton g fktforcp ablforcp start (Complex 0 0)
            in if fst r > 0
               then (case getNullstellenIdx zero (snd r) of
                       Inl e \<Rightarrow> Some (Inl e)
                     | Inr zi \<Rightarrow>
                         if int (length (fst zi)) \<ge> grad fktforcp then Some (Inr (fst zi))
                         else SUCHE_x g fktforcp ablforcp sk SCRRE0 X1 xd start_im (x + xd) (fst zi))
               else SUCHE_x g fktforcp ablforcp sk SCRRE0 X1 xd start_im (x + xd) zero)
      else Some (Inr zero))"

partial_function (option) SUCHE_y ::
  "Globals \<Rightarrow> Polynom \<Rightarrow> Polynom \<Rightarrow> real \<Rightarrow> int \<Rightarrow> int \<Rightarrow> int \<Rightarrow> int \<Rightarrow> int \<Rightarrow> int \<Rightarrow> int \<Rightarrow> int
     \<Rightarrow> Root list \<Rightarrow> (error + Root list) option" where
  "SUCHE_y g fktforcp ablforcp sk SCRRE0 SCRIM0 X0 X1 xd Y1 yd y zero =
     (if y \<le> Y1
      then (case SUCHE_x g fktforcp ablforcp sk SCRRE0 X1 xd
                   (real_of_int y * sk + real_of_int SCRIM0) X0 zero of
              None \<Rightarrow> None
            | Some (Inl e) \<Rightarrow> Some (Inl e)
            | Some (Inr zero') \<Rightarrow>
                if int (length zero') \<ge> grad fktforcp then Some (Inr zero')
                else SUCHE_y g fktforcp ablforcp sk SCRRE0 SCRIM0 X0 X1 xd Y1 yd (y + yd) zero')
      else Some (Inr zero))"

declare SUCHE_x.simps [code]
declare SUCHE_y.simps [code]

definition SUCHE ::
  "Globals \<Rightarrow> Polynom \<Rightarrow> Polynom \<Rightarrow> real \<Rightarrow> int \<Rightarrow> int \<Rightarrow> int \<Rightarrow> int \<Rightarrow> int \<Rightarrow> int \<Rightarrow> Root list
     \<Rightarrow> (error + Root list) option" where
  "SUCHE g fktforcp ablforcp sk SCRRE0 SCRIM0 X0 Y0 X1 Y1 zero =
     (let yd = (if Y0 > Y1 then - 1 else 1);
          xd = (if X0 > X1 then - 1 else 1)
      in SUCHE_y g fktforcp ablforcp sk SCRRE0 SCRIM0 X0 X1 xd Y1 yd Y0 zero)"

text \<open>The conversion of a floating value to \<open>int32_t\<close> truncates towards zero.\<close>

definition c_trunc :: "real \<Rightarrow> int" where
  "c_trunc r = (if r \<ge> 0 then \<lfloor>r\<rfloor> else \<lceil>r\<rceil>)"

text \<open>
  One guarded call \<open>if (nbr_of_cp < fktforcp.grad) { SUCHE(...) }\<close> on the result of the
  calls before it.
\<close>

definition SUCHE_if ::
  "Globals \<Rightarrow> Polynom \<Rightarrow> Polynom \<Rightarrow> real \<Rightarrow> int \<Rightarrow> int \<Rightarrow> int \<Rightarrow> int \<Rightarrow> int \<Rightarrow> int
     \<Rightarrow> (error + Root list) option \<Rightarrow> (error + Root list) option" where
  "SUCHE_if g fktforcp ablforcp sk SCRRE0 SCRIM0 X0 Y0 X1 Y1 r =
     (case r of
        None \<Rightarrow> None
      | Some (Inl e) \<Rightarrow> Some (Inl e)
      | Some (Inr zero) \<Rightarrow>
          if int (length zero) < grad fktforcp
          then SUCHE g fktforcp ablforcp sk SCRRE0 SCRIM0 X0 Y0 X1 Y1 zero
          else Some (Inr zero))"

definition ps_find_critical_points :: "Globals \<Rightarrow> (error + Root list) option" where
  "ps_find_critical_points g =
     (let fktforcp = ableitenFA (fkt g);
          ablforcp = ableitenFA fktforcp;
          ESCAPEQ = COMPLETE1 g * COMPLETE1 g;
          LEN = 1024;
          SCRRE0 = c_trunc (- 3 * ESCAPEQ);
          SCRIM0 = c_trunc (- 3 * ESCAPEQ);
          SCRIM1 = c_trunc (3 * ESCAPEQ);
          sk = real_of_int (SCRIM1 - SCRIM0) / real_of_int LEN;
          r1 = SUCHE g fktforcp ablforcp sk SCRRE0 SCRIM0 0 0 0 (LEN - 1) [];
          r2 = SUCHE_if g fktforcp ablforcp sk SCRRE0 SCRIM0 0 (LEN - 1) (LEN - 1) (LEN - 1) r1;
          r3 = SUCHE_if g fktforcp ablforcp sk SCRRE0 SCRIM0 (LEN - 1) (LEN - 1) (LEN - 1) 0 r2
      in SUCHE_if g fktforcp ablforcp sk SCRRE0 SCRIM0 (LEN - 1) 0 0 0 r3)"

text \<open>
  \<open>ps_construct_critical_orbits\<close>. The orbit loop \<open>for (i = 0; i < MAXIT; i++)\<close> returns
  the orbit log and the flag \<open>esc\<close>; the first argument counts the iterations left.
\<close>

fun orbit_loop :: "nat \<Rightarrow> Polynom \<Rightarrow> real \<Rightarrow> complex \<Rightarrow> complex list \<Rightarrow> complex list \<times> bool" where
  "orbit_loop 0 f escapeQ zn orbit = (orbit, False)"
| "orbit_loop (Suc n) f escapeQ zn orbit =
     (let orbit = orbit @ [zn]
      in if normQ zn > escapeQ then (orbit, True)
         else orbit_loop n f escapeQ (eval_arg_f f zn) orbit)"

text \<open>
  The backward scan \<open>for (i = orbitlen - 2; i >= 0; i--)\<close>; the second argument is
  \<open>i + 1\<close>, the result is \<open>cyclestart\<close>.
\<close>

fun find_cyclestart :: "complex list \<Rightarrow> nat \<Rightarrow> int" where
  "find_cyclestart orbit 0 = - 1"
| "find_cyclestart orbit (Suc i) =
     (if normQ (orbit ! i - orbit ! (length orbit - 1)) < ZEROEPSILON then int i
      else find_cyclestart orbit i)"

text \<open>
  The array \<open>new PeriodicPoint[cyclelen + 8]\<close>: its integer fields are not initialised
  by the program; they are 0 here.
\<close>

definition new_PeriodicPoint :: PeriodicPoint where
  "new_PeriodicPoint = \<lparr> pp = Complex 0 0, mem0 = 0, mem1 = 0, py0 = 0, py1 = 0 \<rparr>"

text \<open>
  The body of the loop over the critical points; the state is the table \<open>zero\<close> with the
  local \<open>cyclenumber\<close> (here \<open>cnum\<close>) and \<open>returnvalue\<close>.
\<close>

definition critical_orbit_body ::
  "Globals \<Rightarrow> Polynom \<Rightarrow> Root list \<times> int \<times> int \<Rightarrow> nat \<Rightarrow> Root list \<times> int \<times> int" where
  "critical_orbit_body g polyabl st cp =
     (case st of (zero, cnum, returnvalue) \<Rightarrow>
        let escapeQ = COMPLETE1 g * COMPLETE1 g;
            z0 = attractor (zero ! cp);
            r = orbit_loop (nat (MAXIT g)) (fkt g) escapeQ z0 [];
            orbit = fst r
        in if snd r then (zero[cp := Root_clear (zero ! cp)], cnum, returnvalue)
           else
             let orbitlen = length orbit;
                 cycleend = int orbitlen - 1;
                 cyclestart = find_cyclestart orbit (orbitlen - 1)
             in if cyclestart < 0 then (zero[cp := Root_clear (zero ! cp)], cnum, returnvalue)
                else
                  let found =
                        list_ex (\<lambda>cpprev.
                           list_ex (\<lambda>k. normQ (pp (cycle (zero ! cpprev) ! k) - orbit ! nat cycleend)
                                          < ZEROEPSILON)
                             [0..<nat (cyclelen (zero ! cpprev))])
                          [0..<cp]
                  in if found then (zero[cp := Root_clear (zero ! cp)], cnum, returnvalue)
                     else
                       let len = cycleend - (cyclestart + 1) + 1;
                           idx = [cyclestart + 1..cycleend];
                           cyc = map (\<lambda>i. new_PeriodicPoint\<lparr> pp := orbit ! nat i \<rparr>) idx
                                 @ replicate 8 new_PeriodicPoint;
                           mult = foldl (\<lambda>m i. m * eval_arg_f polyabl (orbit ! nat i))
                                    (Complex 1 0) idx;
                           r0 = (zero ! cp)\<lparr> cyclelen := len, cycle := cyc,
                                               multiplier := norm_c mult,
                                               cyclenumber := cnum \<rparr>;
                           r1 = (if multiplier r0 > 100001 / 100000
                                 then r0\<lparr> cyclelen := 0, cycle := [], interiorfound := 0 \<rparr>
                                 else r0)
                       in (zero[cp := r1], cnum + 1, returnvalue + 1))"

definition ps_construct_critical_orbits :: "Globals \<Rightarrow> Root list \<Rightarrow> Root list \<times> int" where
  "ps_construct_critical_orbits g zero =
     (let polyabl = ableitenFA (fkt g)
      in case foldl (critical_orbit_body g polyabl) (zero, 1, 0) [0..<length zero] of
           (zero', cnum, returnvalue) \<Rightarrow> (zero', returnvalue))"

text \<open>Lines 1265-1268 of \<open>main\<close>: the driver exits when the count is not positive.\<close>

definition critical_orbits_or_exit :: "Globals \<Rightarrow> Root list \<Rightarrow> error + Root list" where
  "critical_orbits_or_exit g zero =
     (case ps_construct_critical_orbits g zero of
        (zero', returnvalue) \<Rightarrow> if returnvalue \<le> 0 then Inl NoCriticalOrbits else Inr zero')"

text \<open>
  A critical point whose loop pass ends in an accepted cycle: its orbit is bounded and
  periodic, the cycle was not found by an earlier critical point, and the multiplier
  magnitude is at most 1.00001. After the loop these are the entries with
  \<open>cyclelen > 0\<close>.
\<close>

definition accepted_cycles :: "Root list \<Rightarrow> nat" where
  "accepted_cycles zero = length (filter (\<lambda>r. cyclelen r > 0) zero)"

section \<open>Auxiliary notions for the propagation results\<close>

text \<open>
  A grid is well formed when the row table and the row flags have \<open>LOCALLENY\<close> entries
  and every allocated row has \<open>LOCALLENX\<close> words, as \<open>cm_local\<close> allocates them.
\<close>

definition grid_wf :: "Grid \<Rightarrow> bool" where
  "grid_wf G \<longleftrightarrow>
     length (ispotwY G) = nat (sy1 (enclosementall G) - sy0 (enclosementall G) + 1) \<and>
     length (ywithgray G) = nat (sy1 (enclosementall G) - sy0 (enclosementall G) + 1) \<and>
     (\<forall>ws. Some ws \<in> set (ispotwY G) \<longrightarrow> length ws = nat (mem1_all G - mem0_all G + 1))"

text \<open>Every POTW bit of \<open>a\<close> is a POTW bit of \<open>b\<close>; the same for rows and for grids.\<close>

definition word_le :: "DDBYTE \<Rightarrow> DDBYTE \<Rightarrow> bool" where
  "word_le a b \<longleftrightarrow> (\<forall>n. bit a n \<longrightarrow> bit b n)"

fun row_le :: "DDBYTE list option \<Rightarrow> DDBYTE list option \<Rightarrow> bool" where
  "row_le None None = True"
| "row_le (Some a) (Some b) = list_all2 word_le a b"
| "row_le _ _ = False"

definition grid_le :: "Grid \<Rightarrow> Grid \<Rightarrow> bool" where
  "grid_le G G' \<longleftrightarrow>
     enclosementall G' = enclosementall G \<and> mem0_all G' = mem0_all G \<and>
     mem1_all G' = mem1_all G \<and> length (ywithgray G') = length (ywithgray G) \<and>
     list_all2 row_le (ispotwY G) (ispotwY G')"

text \<open>
  The stored POTW bits of a grid, as (row index, word index, bit number), and the number
  of stored GRAY bits.
\<close>

definition potw_bits :: "Grid \<Rightarrow> (nat \<times> nat \<times> nat) set" where
  "potw_bits G =
     {(r, j, b). r < length (ispotwY G) \<and>
        (\<exists>ws. ispotwY G ! r = Some ws \<and> j < length ws \<and> b < 32 \<and> bit (ws ! j) b)}"

definition gray_bits :: "DDBYTE \<Rightarrow> nat" where
  "gray_bits w = card {n. n < 32 \<and> \<not> bit w n}"

fun row_gray :: "DDBYTE list option \<Rightarrow> nat" where
  "row_gray None = 0"
| "row_gray (Some ws) = sum_list (map gray_bits ws)"

definition gray_count :: "Grid \<Rightarrow> nat" where
  "gray_count G = sum_list (map row_gray (ispotwY G))"

text \<open>
  The invariant of the loop over the bits of a word that starts with the value \<open>ff0\<close>,
  before bit number \<open>n\<close> is looked at.
\<close>

definition bit_inv :: "DDBYTE \<Rightarrow> nat \<Rightarrow> DDBYTE \<times> DDBYTE \<times> bool \<times> bool \<Rightarrow> bool" where
  "bit_inv ff0 n st \<longleftrightarrow>
     (case st of (ff, fneu, fchanged, graythere) \<Rightarrow>
        ff = drop_bit n ff0 \<and> word_le ff0 fneu \<and> (fchanged \<longleftrightarrow> fneu \<noteq> ff0))"

text \<open>
  What a part of a sweep does to the pair of the grid and the flag \<open>changed\<close>: no POTW
  bit is lost; on a well-formed grid, a flag that is newly set comes with fewer GRAY
  bits; a flag that is not set means that no word was written.
\<close>

definition step_ok :: "Grid \<times> bool \<Rightarrow> Grid \<times> bool \<Rightarrow> bool" where
  "step_ok s s' \<longleftrightarrow>
     (case s of (G, ch) \<Rightarrow> case s' of (G', ch') \<Rightarrow>
        grid_le G G' \<and>
        (grid_wf G \<longrightarrow> grid_wf G' \<and> (ch' \<longrightarrow> ch \<or> gray_count G' < gray_count G)) \<and>
        (\<not> ch' \<longrightarrow> ispotwY G' = ispotwY G \<and> \<not> ch))"

text \<open>The same for the state of the loop over the words of a row.\<close>

definition word_rel :: "Grid \<times> bool \<times> bool \<Rightarrow> Grid \<times> bool \<times> bool \<Rightarrow> bool" where
  "word_rel s s' \<longleftrightarrow> step_ok (fst s, fst (snd s)) (fst s', fst (snd s'))"


text \<open>
  The first loop over the periodic points in closed form: the ranges it writes to a
  point, the cycle after \<open>n\<close> passes, and the union it adds a rectangle to.
\<close>

definition set_ranges :: "Globals \<Rightarrow> int \<Rightarrow> PeriodicPoint \<Rightarrow> PeriodicPoint" where
  "set_ranges g SCREENWIDTH p =
     p\<lparr> mem0 := sx0 (point_rect g SCREENWIDTH p) div 2 ^ SHIFTPERDDBYTE,
        mem1 := sx1 (point_rect g SCREENWIDTH p) div 2 ^ SHIFTPERDDBYTE,
        py0 := sy0 (point_rect g SCREENWIDTH p),
        py1 := sy1 (point_rect g SCREENWIDTH p) \<rparr>"

definition ranged :: "Globals \<Rightarrow> int \<Rightarrow> nat \<Rightarrow> PeriodicPoint list \<Rightarrow> PeriodicPoint list" where
  "ranged g SCREENWIDTH n cyc = map (set_ranges g SCREENWIDTH) (take n cyc) @ drop n cyc"

definition union_rect :: "ScreenRect \<Rightarrow> ScreenRect \<Rightarrow> ScreenRect" where
  "union_rect encl scr =
     (let encl = (if sx0 scr < sx0 encl then encl\<lparr> sx0 := sx0 scr \<rparr> else encl);
          encl = (if sx1 scr > sx1 encl then encl\<lparr> sx1 := sx1 scr \<rparr> else encl);
          encl = (if sy0 scr < sy0 encl then encl\<lparr> sy0 := sy0 scr \<rparr> else encl);
          encl = (if sy1 scr > sy1 encl then encl\<lparr> sy1 := sy1 scr \<rparr> else encl)
      in encl)"

text \<open>Invariants of the loops that build and prime the grid of a level.\<close>

definition same_shape :: "Grid \<Rightarrow> Grid \<Rightarrow> bool" where
  "same_shape G G' \<longleftrightarrow>
     enclosementall G' = enclosementall G \<and> mem0_all G' = mem0_all G \<and>
     mem1_all G' = mem1_all G \<and> ywithgray G' = ywithgray G"

definition wf_shape :: "Grid \<Rightarrow> Grid \<Rightarrow> bool" where
  "wf_shape G0 G \<longleftrightarrow> same_shape G0 G \<and> grid_wf G"

definition rows_ok :: "nat \<Rightarrow> nat \<Rightarrow> ArrayDDByteManager \<times> DDBYTE list option list \<Rightarrow> bool" where
  "rows_ok ny nx st \<longleftrightarrow>
     length (snd st) = ny \<and> (\<forall>ws. Some ws \<in> set (snd st) \<longrightarrow> length ws = nx)"

text \<open>
  The globals with the scale factors of level \<open>REFINEMENT\<close>, the union of the clamped
  rectangles of the first \<open>cyclelen\<close> periodic points, and the plane rectangle \<open>local\<close>
  that belongs to it, as \<open>level_setup\<close> computes them.
\<close>

definition level_scales :: "Globals \<Rightarrow> int \<Rightarrow> Globals" where
  "level_scales g REFINEMENT =
     (let SCREENWIDTH = (2 :: int) ^ nat REFINEMENT;
          g = g\<lparr> scaleRangePerPixel := (COMPLETE1 g - COMPLETE0 g) / real_of_int SCREENWIDTH \<rparr>
      in g\<lparr> scalePixelPerRange := real_of_int SCREENWIDTH / (COMPLETE1 g - COMPLETE0 g) \<rparr>)"

definition level_encl :: "Globals \<Rightarrow> int \<Rightarrow> Root \<Rightarrow> ScreenRect" where
  "level_encl g REFINEMENT onecycle =
     foldl union_rect
       \<lparr> sx0 = 2 ^ nat REFINEMENT, sx1 = 0, sy0 = 2 ^ nat REFINEMENT, sy1 = 0 \<rparr>
       (map (point_rect (level_scales g REFINEMENT) (2 ^ nat REFINEMENT))
          (take (nat (cyclelen onecycle)) (cycle onecycle)))"

definition level_local :: "Globals \<Rightarrow> int \<Rightarrow> Root \<Rightarrow> PlaneRect" where
  "level_local g REFINEMENT onecycle =
     (let g = level_scales g REFINEMENT; encl = level_encl g REFINEMENT onecycle
      in \<lparr> rx0 = real_of_int (sx0 encl) * scaleRangePerPixel g + COMPLETE0 g,
           rx1 = real_of_int (sx1 encl + 1) * scaleRangePerPixel g + COMPLETE0 g,
           ry0 = real_of_int (sy0 encl) * scaleRangePerPixel g + COMPLETE0 g,
           ry1 = real_of_int (sy1 encl + 1) * scaleRangePerPixel g + COMPLETE0 g \<rparr>)"


text \<open>A pixel rectangle with all four coordinates in \<open>[0, SCREENWIDTH - 1]\<close>.\<close>

definition in_screen :: "int \<Rightarrow> ScreenRect \<Rightarrow> bool" where
  "in_screen SCREENWIDTH r \<longleftrightarrow>
     0 \<le> sx0 r \<and> sx0 r \<le> SCREENWIDTH - 1 \<and> 0 \<le> sx1 r \<and> sx1 r \<le> SCREENWIDTH - 1 \<and>
     0 \<le> sy0 r \<and> sy0 r \<le> SCREENWIDTH - 1 \<and> 0 \<le> sy1 r \<and> sy1 r \<le> SCREENWIDTH - 1"

text \<open>The guard of \<open>CELLCOLOR_XY\<close>: the pixel lies in \<open>enclosementall\<close>.\<close>

definition in_enclosement :: "Grid \<Rightarrow> int \<Rightarrow> int \<Rightarrow> bool" where
  "in_enclosement G XX YY \<longleftrightarrow>
     XX \<ge> sx0 (enclosementall G) \<and> XX \<le> sx1 (enclosementall G) \<and>
     YY \<ge> sy0 (enclosementall G) \<and> YY \<le> sy1 (enclosementall G)"


text \<open>
  What the state of the loop over the levels keeps of the state it started from: the
  globals but for the scale factors and \<open>local\<close>, the periodic points of the cycle, and
  the block size of the allocator.
\<close>

definition same_globals :: "Globals \<Rightarrow> Globals \<Rightarrow> bool" where
  "same_globals g g1 \<longleftrightarrow>
     (\<exists>a b r. g1 = g\<lparr> scaleRangePerPixel := a, scalePixelPerRange := b, local_rect := r \<rparr>)"

definition same_points :: "Root \<Rightarrow> Root \<Rightarrow> bool" where
  "same_points oc oc1 \<longleftrightarrow>
     cyclelen oc1 = cyclelen oc \<and> length (cycle oc1) = length (cycle oc) \<and>
     map pp (cycle oc1) = map pp (cycle oc) \<and>
     drop (nat (cyclelen oc)) (cycle oc1) = drop (nat (cyclelen oc)) (cycle oc)"


section \<open>Auxiliary notions for the allocator results\<close>

text \<open>
  The invariant of the allocator relative to the set \<open>U\<close> of words handed out since the
  last \<open>FreeAll\<close>: the current block is live and filled from offset 0 up to
  \<open>freeFromIdx\<close>, and the words of \<open>U\<close> lie in live blocks, below \<open>freeFromIdx\<close> when
  they lie in the current block.
\<close>

definition mgr_inv :: "ArrayDDByteManager \<Rightarrow> (nat \<times> int) set \<Rightarrow> bool" where
  "mgr_inv mgr U \<longleftrightarrow>
     (\<forall>b. current mgr = Some b \<longrightarrow> b < heap_next mgr \<and> 0 \<le> freeFromIdx mgr
        \<and> allocatedIdx mgr = allocatePerBlock mgr) \<and>
     (\<forall>(b, i) \<in> U. b < heap_next mgr \<and> (current mgr = Some b \<longrightarrow> i < freeFromIdx mgr))"

text \<open>Each allocation of the list is disjoint from the allocations after it.\<close>

fun rows_apart :: "(PDDBYTE \<times> int) list \<Rightarrow> bool" where
  "rows_apart [] = True"
| "rows_apart (pa # ps) = ((\<forall>qa \<in> set ps. words_of pa \<inter> words_of qa = {}) \<and> rows_apart ps)"

definition in_rect :: "PlaneRect \<Rightarrow> complex \<Rightarrow> bool" where
  "in_rect B w \<longleftrightarrow> rx0 B \<le> Re w \<and> Re w \<le> rx1 B \<and> ry0 B \<le> Im w \<and> Im w \<le> ry1 B"

definition globals_z2c_c0 :: Globals where
  "globals_z2c_c0 = \<lparr> MAXIT = 25000, LEVEL0 = 8, LEVEL1 = 8, ENCLOSEMENTWIDTH = 1,
     FUNC = FUNC_Z2C, fkt = setfunc FUNC_Z2C (Complex 0 0) (Complex 0 0),
     seedC0re = 0, seedC1re = 0, seedC0im = 0, seedC1im = 0, FAKTORAre = 0, FAKTORAim = 0,
     scaleRangePerPixel = 0, scalePixelPerRange = 0, COMPLETE0 = - 2, COMPLETE1 = 2,
     local_rect = \<lparr> rx0 = 0, rx1 = 0, ry0 = 0, ry1 = 0 \<rparr> \<rparr>"

section \<open>A run of the propagator: z^2 with the fixed point 0\<close>

text \<open>
  The root record that the orbit classification leaves for \<open>z^2 + 0\<close>: the critical point
  0 is a fixed point with multiplier 0. \<open>globals_z2c_c0\<close> holds the globals of the call
  \<open>func=z2c c=0,0 encw=1 level=8,8\<close>; the Lagrange bound of \<open>z^2\<close> is 2.
\<close>

definition root_c0 :: Root where
  "root_c0 = \<lparr> attractor = Complex 0 0,
               cycle = new_PeriodicPoint # replicate 8 new_PeriodicPoint,
               ps_basinrect = \<lparr> rx0 = 0, rx1 = 0, ry0 = 0, ry1 = 0 \<rparr>,
               interiorfound = 0, cyclelen = 1, cyclenumber = 1, multiplier = 0 \<rparr>"

text \<open>The state of the run at level 8: globals, root, allocator and grids.\<close>

definition g8 :: Globals where
  "g8 = globals_z2c_c0\<lparr> scaleRangePerPixel := 1 / 64, scalePixelPerRange := 64,
          local_rect := \<lparr> rx0 = - (1 / 64), rx1 = 1 / 32, ry0 = - (1 / 64), ry1 = 1 / 32 \<rparr> \<rparr>"

definition root8 :: Root where
  "root8 = root_c0\<lparr> cycle := \<lparr> pp = Complex 0 0, mem0 = 3, mem1 = 4, py0 = 127, py1 = 129 \<rparr>
                               # replicate 8 new_PeriodicPoint,
             ps_basinrect := \<lparr> rx0 = - (1 / 64), rx1 = 1 / 32, ry0 = - (1 / 64), ry1 = 1 / 32 \<rparr> \<rparr>"

definition mgr8 :: ArrayDDByteManager where
  "mgr8 = \<lparr> current = Some 0, allocatedIdx = 268435456, freeFromIdx = 6,
            allocatePerBlock = 268435456, ptr = [0], anzptr = 1, heap_next = 1 \<rparr>"

definition G8_primed :: Grid where
  "G8_primed = \<lparr> enclosementall = \<lparr> sx0 = 127, sx1 = 129, sy0 = 127, sy1 = 129 \<rparr>,
                 mem0_all = 3, mem1_all = 4,
                 ispotwY = [Some [0, 0], Some [0, 0], Some [0, 0]],
                 ywithgray = [True, True, True] \<rparr>"

definition G8_final :: Grid where
  "G8_final = \<lparr> enclosementall = \<lparr> sx0 = 127, sx1 = 129, sy0 = 127, sy1 = 129 \<rparr>,
                mem0_all = 3, mem1_all = 4,
                ispotwY = [Some [2097151, 4294965248], Some [2097151, 4294965248],
                           Some [2097151, 4294965248]],
                ywithgray = [True, True, True] \<rparr>"


text \<open>
  The polynomial \<open>fkt\<close> of the calls \<open>func=z2c c=536870910,0\<close> and
  \<open>func=z2c c=1073741824,0\<close>, as \<open>main\<close> has set it when it calls \<open>getLagrange(fkt)\<close>, and a
  function \<open>log2q\<close> that has the value \<open>29 + 2^-48\<close> at \<open>2^29\<close> and is exact elsewhere.
\<close>

definition globals_c536870910 :: Globals where
  "globals_c536870910 =
     globals_z2c_c0\<lparr> fkt := setfunc FUNC_Z2C (Complex 0 0) (Complex 536870910 0),
                      seedC0re := 536870910, seedC1re := 536870910 \<rparr>"

definition globals_c1073741824 :: Globals where
  "globals_c1073741824 =
     globals_z2c_c0\<lparr> fkt := setfunc FUNC_Z2C (Complex 0 0) (Complex 1073741824 0),
                      seedC0re := 1073741824, seedC1re := 1073741824 \<rparr>"

definition log2q_sample :: "real \<Rightarrow> real" where
  "log2q_sample x = (if x = 536870912 then 29 + 1 / 2 ^ 48 else log 2 x)"

text \<open>
  The globals of the call \<open>func=z2c c=-2,0\<close> (the Lagrange bound of \<open>z^2 - 2\<close> is 4), and
  the table \<open>zero\<close> that holds its critical point 0.
\<close>

definition globals_z2c_m2 :: Globals where
  "globals_z2c_m2 =
     globals_z2c_c0\<lparr> fkt := setfunc FUNC_Z2C (Complex 0 0) (Complex (- 2) 0),
                      seedC0re := - 2, seedC1re := - 2, COMPLETE0 := - 4, COMPLETE1 := 4 \<rparr>"

definition zero_cp0 :: "Root list" where
  "zero_cp0 = [(Root_clear zero_Root)\<lparr> attractor := Complex 0 0 \<rparr>]"

text \<open>Globals with an empty range of levels, as after \<open>level=12,10\<close>.\<close>

definition globals_no_level :: Globals where
  "globals_no_level = globals_z2c_c0\<lparr> LEVEL0 := 12, LEVEL1 := 10 \<rparr>"
section \<open>Soundness of the interval evaluators\<close>



lemma minimumD_min: "minimumD a b = min a b" by (simp add: minimumD_def min_def)
lemma maximumD_max: "maximumD a b = max a b" by (simp add: maximumD_def max_def)
lemma minimumD4_min: "minimumD4 a b c d = min (min a b) (min c d)"
  by (simp add: minimumD4_def Let_def min_def)
lemma maximumD4_max: "maximumD4 a b c d = max (max a b) (max c d)"
  by (simp add: maximumD4_def Let_def max_def)

lemma scale_bounds:
  fixes k :: real
  assumes "a \<le> x" "x \<le> b"
  shows "minimumD (k * a) (k * b) \<le> k * x" "k * x \<le> maximumD (k * a) (k * b)"
proof -
  show "minimumD (k * a) (k * b) \<le> k * x"
  proof (cases "0 \<le> k")
    case True
    then have "k * a \<le> k * x" using assms by (simp add: mult_left_mono)
    then show ?thesis by (simp add: minimumD_min min_le_iff_disj)
  next
    case False
    then have "k * b \<le> k * x" using assms by (simp add: mult_left_mono_neg)
    then show ?thesis by (simp add: minimumD_min min_le_iff_disj)
  qed
  show "k * x \<le> maximumD (k * a) (k * b)"
  proof (cases "0 \<le> k")
    case True
    then have "k * x \<le> k * b" using assms by (simp add: mult_left_mono)
    then show ?thesis by (simp add: maximumD_max le_max_iff_disj)
  next
    case False
    then have "k * x \<le> k * a" using assms by (simp add: mult_left_mono_neg)
    then show ?thesis by (simp add: maximumD_max le_max_iff_disj)
  qed
qed

lemma prod_bounds:
  fixes x y :: real
  assumes "a \<le> x" "x \<le> b" "c \<le> y" "y \<le> d"
  shows "minimumD4 (a * c) (a * d) (b * c) (b * d) \<le> x * y"
    and "x * y \<le> maximumD4 (a * c) (a * d) (b * c) (b * d)"
proof -
  have l1: "min (a * y) (b * y) \<le> x * y" and u1: "x * y \<le> max (a * y) (b * y)"
    using scale_bounds [OF assms(1,2), of y] by (simp_all add: minimumD_min maximumD_max mult.commute)
  have la: "min (a * c) (a * d) \<le> a * y" and ua: "a * y \<le> max (a * c) (a * d)"
    using scale_bounds [OF assms(3,4), of a] by (simp_all add: minimumD_min maximumD_max)
  have lb: "min (b * c) (b * d) \<le> b * y" and ub: "b * y \<le> max (b * c) (b * d)"
    using scale_bounds [OF assms(3,4), of b] by (simp_all add: minimumD_min maximumD_max)
  show "minimumD4 (a * c) (a * d) (b * c) (b * d) \<le> x * y"
    unfolding minimumD4_min using l1 la lb by linarith
  show "x * y \<le> maximumD4 (a * c) (a * d) (b * c) (b * d)"
    unfolding maximumD4_max using u1 ua ub by linarith
qed

lemma even_pow_bounds:
  fixes x :: real
  assumes "a \<le> x" "x \<le> b" "0 \<le> a \<or> b \<le> 0" "even n"
  shows "minimumD (a ^ n) (b ^ n) \<le> x ^ n" and "x ^ n \<le> maximumD (a ^ n) (b ^ n)"
proof -
  from assms(3) show "minimumD (a ^ n) (b ^ n) \<le> x ^ n"
  proof
    assume "0 \<le> a"
    then have "a ^ n \<le> x ^ n" using assms(1) by (simp add: power_mono)
    then show ?thesis by (simp add: minimumD_min min_le_iff_disj)
  next
    assume "b \<le> 0"
    then have "\<bar>b\<bar> \<le> \<bar>x\<bar>" using assms(2) by simp
    then have "\<bar>b\<bar> ^ n \<le> \<bar>x\<bar> ^ n" by (simp add: power_mono)
    then have "b ^ n \<le> x ^ n" using assms(4) by (simp add: power_even_abs)
    then show ?thesis by (simp add: minimumD_min min_le_iff_disj)
  qed
  have "\<bar>x\<bar> \<le> \<bar>a\<bar> \<or> \<bar>x\<bar> \<le> \<bar>b\<bar>" using assms(1,2) by linarith
  then have "\<bar>x\<bar> ^ n \<le> \<bar>a\<bar> ^ n \<or> \<bar>x\<bar> ^ n \<le> \<bar>b\<bar> ^ n"
    by (auto simp: power_mono)
  then have "x ^ n \<le> a ^ n \<or> x ^ n \<le> b ^ n" using assms(4) by (simp add: power_even_abs)
  then show "x ^ n \<le> maximumD (a ^ n) (b ^ n)" by (auto simp: maximumD_max le_max_iff_disj)
qed

lemma odd_pow_mono:
  fixes x :: real
  assumes "a \<le> x" "odd n"
  shows "a ^ n \<le> x ^ n"
  using assms by (simp add: power_mono_odd)


lemma sq_bounds:
  fixes x :: real
  assumes "a \<le> x" "x \<le> b" "0 \<le> a \<or> b \<le> 0"
  shows "minimumD (a * a) (b * b) \<le> x * x" and "x * x \<le> maximumD (a * a) (b * b)"
  using even_pow_bounds [OF assms, of 2] by (simp_all add: power2_eq_square)

lemma p4_bounds:
  fixes x :: real
  assumes "a \<le> x" "x \<le> b" "0 \<le> a \<or> b \<le> 0"
  shows "minimumD (a * a * a * a) (b * b * b * b) \<le> x * x * x * x"
    and "x * x * x * x \<le> maximumD (a * a * a * a) (b * b * b * b)"
  using even_pow_bounds [OF assms, of 4] by (simp_all add: power4_eq_xxxx)

lemma power6_eq: "(x::real) ^ 6 = x * x * x * x * x * x"
  by (simp add: eval_nat_numeral mult.assoc)

lemma power5_eq: "(x::real) ^ 5 = x * x * x * x * x"
  by (simp add: eval_nat_numeral mult.assoc)

lemma p6_bounds:
  fixes x :: real
  assumes "a \<le> x" "x \<le> b" "0 \<le> a \<or> b \<le> 0"
  shows "minimumD (a * a * a * a * a * a) (b * b * b * b * b * b) \<le> x * x * x * x * x * x"
    and "x * x * x * x * x * x \<le> maximumD (a * a * a * a * a * a) (b * b * b * b * b * b)"
  using even_pow_bounds [OF assms, of 6] by (simp_all add: power6_eq)

lemma cube_mono:
  fixes x :: real
  assumes "a \<le> x"
  shows "a * a * a \<le> x * x * x"
  using odd_pow_mono [OF assms, of 3] by (simp add: power3_eq_cube)

lemma p5_mono:
  fixes x :: real
  assumes "a \<le> x"
  shows "a * a * a * a * a \<le> x * x * x * x * x"
  using odd_pow_mono [OF assms, of 5] by (simp add: power5_eq)

lemma Re_Im_pow2:
  "Re ((Complex x y) ^ 2) = x * x - y * y" "Im ((Complex x y) ^ 2) = 2 * (x * y)"
  by (simp_all add: power2_eq_square)

lemma Re_Im_pow3:
  "Re ((Complex x y) ^ 3) = x * x * x - 3 * (x * (y * y))"
  "Im ((Complex x y) ^ 3) = 3 * (x * x * y) - y * y * y"
  by (simp_all add: power3_eq_cube algebra_simps)

lemma Re_Im_pow4:
  "Re ((Complex x y) ^ 4) = x * x * x * x - 6 * (x * x * (y * y)) + y * y * y * y"
  "Im ((Complex x y) ^ 4) = 4 * (x * x * x * y) - 4 * (x * (y * y * y))"
  by (simp_all add: eval_nat_numeral algebra_simps)

lemma Re_Im_pow5:
  "Re ((Complex x y) ^ 5) =
     x * x * x * x * x - 10 * (x * x * x * (y * y)) + 5 * (x * (y * y * y * y))"
  "Im ((Complex x y) ^ 5) =
     5 * (x * x * x * x * y) - 10 * (x * x * (y * y * y)) + y * y * y * y * y"
  by (simp_all add: eval_nat_numeral algebra_simps)

lemma Re_Im_pow6:
  "Re ((Complex x y) ^ 6) =
     x * x * x * x * x * x - 15 * (x * x * x * x * (y * y)) + 15 * (x * x * (y * y * y * y))
     - y * y * y * y * y * y"
  "Im ((Complex x y) ^ 6) =
     6 * (x * x * x * x * x * y) - 20 * (x * x * x * (y * y * y)) + 6 * (x * (y * y * y * y * y))"
  by (simp_all add: eval_nat_numeral algebra_simps)

lemma Re_Im_lin:
  "Re (Complex ar ai * Complex x y) = ar * x - ai * y"
  "Im (Complex ar ai * Complex x y) = ai * x + ar * y"
  by simp_all

lemma bbox_z2c:
  assumes x: "rx0 A \<le> x" "x \<le> rx1 A" and y: "ry0 A \<le> y" "y \<le> ry1 A"
    and nx: "0 \<le> rx0 A \<or> rx1 A \<le> 0" and ny: "0 \<le> ry0 A \<or> ry1 A \<le> 0"
    and c: "seedC0re g \<le> Re c" "Re c \<le> seedC1re g" "seedC0im g \<le> Im c" "Im c \<le> seedC1im g"
  defines "w \<equiv> (Complex x y) ^ 2 + c"
  shows "rx0 (getBoundingBoxfA_z2c g A) \<le> Re w" "Re w \<le> rx1 (getBoundingBoxfA_z2c g A)"
    "ry0 (getBoundingBoxfA_z2c g A) \<le> Im w" "Im w \<le> ry1 (getBoundingBoxfA_z2c g A)"
proof -
  note xx = sq_bounds [OF x nx]
  note yy = sq_bounds [OF y ny]
  note xy = prod_bounds [OF x y]
  have Rw: "Re w = x * x - y * y + Re c" and Iw: "Im w = 2 * (x * y) + Im c"
    by (simp_all add: w_def Re_Im_pow2)
  show "rx0 (getBoundingBoxfA_z2c g A) \<le> Re w"
    unfolding Rw getBoundingBoxfA_z2c_def PlaneRect.select_convs using xx yy c by linarith
  show "Re w \<le> rx1 (getBoundingBoxfA_z2c g A)"
    unfolding Rw getBoundingBoxfA_z2c_def PlaneRect.select_convs using xx yy c by linarith
  show "ry0 (getBoundingBoxfA_z2c g A) \<le> Im w"
    unfolding Iw getBoundingBoxfA_z2c_def PlaneRect.select_convs using xy c by linarith
  show "Im w \<le> ry1 (getBoundingBoxfA_z2c g A)"
    unfolding Iw getBoundingBoxfA_z2c_def PlaneRect.select_convs using xy c by linarith
qed


lemma scale_bounds4:
  fixes k :: real
  assumes "a \<le> x" "x \<le> b"
  shows "minimumD4 (k * a) (k * b) (k * a) (k * b) \<le> k * x"
    and "k * x \<le> maximumD4 (k * a) (k * b) (k * a) (k * b)"
  using scale_bounds [OF assms, of k]
  by (simp_all add: minimumD4_min maximumD4_max minimumD_min maximumD_max)

lemma bbox_z2azc:
  assumes x: "rx0 A \<le> x" "x \<le> rx1 A" and y: "ry0 A \<le> y" "y \<le> ry1 A"
    and nx: "0 \<le> rx0 A \<or> rx1 A \<le> 0" and ny: "0 \<le> ry0 A \<or> ry1 A \<le> 0"
    and c: "seedC0re g \<le> Re c" "Re c \<le> seedC1re g" "seedC0im g \<le> Im c" "Im c \<le> seedC1im g"
  defines "w \<equiv> (Complex x y) ^ 2 + Complex (FAKTORAre g) (FAKTORAim g) * Complex x y + c"
  shows "rx0 (getBoundingBoxfA_z2azc g A) \<le> Re w" "Re w \<le> rx1 (getBoundingBoxfA_z2azc g A)"
    "ry0 (getBoundingBoxfA_z2azc g A) \<le> Im w" "Im w \<le> ry1 (getBoundingBoxfA_z2azc g A)"
proof -
  note xx = sq_bounds [OF x nx] and yy = sq_bounds [OF y ny]
  note x3 = cube_mono [OF x(1)] cube_mono [OF x(2)] and y3 = cube_mono [OF y(1)] cube_mono [OF y(2)]
  note x4 = p4_bounds [OF x nx] and y4 = p4_bounds [OF y ny]
  note x5 = p5_mono [OF x(1)] p5_mono [OF x(2)] and y5 = p5_mono [OF y(1)] p5_mono [OF y(2)]
  note x6 = p6_bounds [OF x nx] and y6 = p6_bounds [OF y ny]
  note lin = scale_bounds [OF x, of "FAKTORAre g"] scale_bounds [OF y, of "FAKTORAim g"]
    scale_bounds [OF y, of "FAKTORAre g"] scale_bounds [OF x, of "FAKTORAim g"]
    scale_bounds4 [OF x, of "FAKTORAre g"] scale_bounds4 [OF y, of "FAKTORAim g"]
    scale_bounds4 [OF y, of "FAKTORAre g"] scale_bounds4 [OF x, of "FAKTORAim g"]
  note re_terms = xx yy
  note im_terms = prod_bounds [OF x y]
  have Rw: "Re w = x * x - y * y + (FAKTORAre g * x - FAKTORAim g * y) + Re c"
    and Iw: "Im w = 2 * (x * y) + (FAKTORAim g * x + FAKTORAre g * y) + Im c"
    by (simp_all add: w_def Re_Im_pow2)
  show "rx0 (getBoundingBoxfA_z2azc g A) \<le> Re w"
    unfolding Rw getBoundingBoxfA_z2azc_def PlaneRect.select_convs using re_terms lin c by linarith
  show "Re w \<le> rx1 (getBoundingBoxfA_z2azc g A)"
    unfolding Rw getBoundingBoxfA_z2azc_def PlaneRect.select_convs using re_terms lin c by linarith
  show "ry0 (getBoundingBoxfA_z2azc g A) \<le> Im w"
    unfolding Iw getBoundingBoxfA_z2azc_def PlaneRect.select_convs using im_terms lin c by linarith
  show "Im w \<le> ry1 (getBoundingBoxfA_z2azc g A)"
    unfolding Iw getBoundingBoxfA_z2azc_def PlaneRect.select_convs using im_terms lin c by linarith
qed

lemma bbox_z3azc:
  assumes x: "rx0 A \<le> x" "x \<le> rx1 A" and y: "ry0 A \<le> y" "y \<le> ry1 A"
    and nx: "0 \<le> rx0 A \<or> rx1 A \<le> 0" and ny: "0 \<le> ry0 A \<or> ry1 A \<le> 0"
    and c: "seedC0re g \<le> Re c" "Re c \<le> seedC1re g" "seedC0im g \<le> Im c" "Im c \<le> seedC1im g"
  defines "w \<equiv> (Complex x y) ^ 3 + Complex (FAKTORAre g) (FAKTORAim g) * Complex x y + c"
  shows "rx0 (getBoundingBoxfA_z3azc g A) \<le> Re w" "Re w \<le> rx1 (getBoundingBoxfA_z3azc g A)"
    "ry0 (getBoundingBoxfA_z3azc g A) \<le> Im w" "Im w \<le> ry1 (getBoundingBoxfA_z3azc g A)"
proof -
  note xx = sq_bounds [OF x nx] and yy = sq_bounds [OF y ny]
  note x3 = cube_mono [OF x(1)] cube_mono [OF x(2)] and y3 = cube_mono [OF y(1)] cube_mono [OF y(2)]
  note x4 = p4_bounds [OF x nx] and y4 = p4_bounds [OF y ny]
  note x5 = p5_mono [OF x(1)] p5_mono [OF x(2)] and y5 = p5_mono [OF y(1)] p5_mono [OF y(2)]
  note x6 = p6_bounds [OF x nx] and y6 = p6_bounds [OF y ny]
  note lin = scale_bounds [OF x, of "FAKTORAre g"] scale_bounds [OF y, of "FAKTORAim g"]
    scale_bounds [OF y, of "FAKTORAre g"] scale_bounds [OF x, of "FAKTORAim g"]
    scale_bounds4 [OF x, of "FAKTORAre g"] scale_bounds4 [OF y, of "FAKTORAim g"]
    scale_bounds4 [OF y, of "FAKTORAre g"] scale_bounds4 [OF x, of "FAKTORAim g"]
  note re_terms = x3 prod_bounds [OF x yy]
  note im_terms = prod_bounds [OF xx y] y3
  have Rw: "Re w = x * x * x - 3 * (x * (y * y)) + (FAKTORAre g * x - FAKTORAim g * y) + Re c"
    and Iw: "Im w = 3 * (x * x * y) - y * y * y + (FAKTORAim g * x + FAKTORAre g * y) + Im c"
    by (simp_all add: w_def Re_Im_pow3)
  show "rx0 (getBoundingBoxfA_z3azc g A) \<le> Re w"
    unfolding Rw getBoundingBoxfA_z3azc_def PlaneRect.select_convs using re_terms lin c by linarith
  show "Re w \<le> rx1 (getBoundingBoxfA_z3azc g A)"
    unfolding Rw getBoundingBoxfA_z3azc_def PlaneRect.select_convs using re_terms lin c by linarith
  show "ry0 (getBoundingBoxfA_z3azc g A) \<le> Im w"
    unfolding Iw getBoundingBoxfA_z3azc_def PlaneRect.select_convs using im_terms lin c by linarith
  show "Im w \<le> ry1 (getBoundingBoxfA_z3azc g A)"
    unfolding Iw getBoundingBoxfA_z3azc_def PlaneRect.select_convs using im_terms lin c by linarith
qed

lemma bbox_z4azc:
  assumes x: "rx0 A \<le> x" "x \<le> rx1 A" and y: "ry0 A \<le> y" "y \<le> ry1 A"
    and nx: "0 \<le> rx0 A \<or> rx1 A \<le> 0" and ny: "0 \<le> ry0 A \<or> ry1 A \<le> 0"
    and c: "seedC0re g \<le> Re c" "Re c \<le> seedC1re g" "seedC0im g \<le> Im c" "Im c \<le> seedC1im g"
  defines "w \<equiv> (Complex x y) ^ 4 + Complex (FAKTORAre g) (FAKTORAim g) * Complex x y + c"
  shows "rx0 (getBoundingBoxfA_z4azc g A) \<le> Re w" "Re w \<le> rx1 (getBoundingBoxfA_z4azc g A)"
    "ry0 (getBoundingBoxfA_z4azc g A) \<le> Im w" "Im w \<le> ry1 (getBoundingBoxfA_z4azc g A)"
proof -
  note xx = sq_bounds [OF x nx] and yy = sq_bounds [OF y ny]
  note x3 = cube_mono [OF x(1)] cube_mono [OF x(2)] and y3 = cube_mono [OF y(1)] cube_mono [OF y(2)]
  note x4 = p4_bounds [OF x nx] and y4 = p4_bounds [OF y ny]
  note x5 = p5_mono [OF x(1)] p5_mono [OF x(2)] and y5 = p5_mono [OF y(1)] p5_mono [OF y(2)]
  note x6 = p6_bounds [OF x nx] and y6 = p6_bounds [OF y ny]
  note lin = scale_bounds [OF x, of "FAKTORAre g"] scale_bounds [OF y, of "FAKTORAim g"]
    scale_bounds [OF y, of "FAKTORAre g"] scale_bounds [OF x, of "FAKTORAim g"]
    scale_bounds4 [OF x, of "FAKTORAre g"] scale_bounds4 [OF y, of "FAKTORAim g"]
    scale_bounds4 [OF y, of "FAKTORAre g"] scale_bounds4 [OF x, of "FAKTORAim g"]
  note re_terms = x4 y4 prod_bounds [OF xx yy]
  note im_terms = prod_bounds [OF x3 y] prod_bounds [OF x y3]
  have Rw: "Re w = x * x * x * x - 6 * (x * x * (y * y)) + y * y * y * y + (FAKTORAre g * x - FAKTORAim g * y) + Re c"
    and Iw: "Im w = 4 * (x * x * x * y) - 4 * (x * (y * y * y)) + (FAKTORAim g * x + FAKTORAre g * y) + Im c"
    by (simp_all add: w_def Re_Im_pow4)
  show "rx0 (getBoundingBoxfA_z4azc g A) \<le> Re w"
    unfolding Rw getBoundingBoxfA_z4azc_def PlaneRect.select_convs using re_terms lin c by linarith
  show "Re w \<le> rx1 (getBoundingBoxfA_z4azc g A)"
    unfolding Rw getBoundingBoxfA_z4azc_def PlaneRect.select_convs using re_terms lin c by linarith
  show "ry0 (getBoundingBoxfA_z4azc g A) \<le> Im w"
    unfolding Iw getBoundingBoxfA_z4azc_def PlaneRect.select_convs using im_terms lin c by linarith
  show "Im w \<le> ry1 (getBoundingBoxfA_z4azc g A)"
    unfolding Iw getBoundingBoxfA_z4azc_def PlaneRect.select_convs using im_terms lin c by linarith
qed

lemma bbox_z5azc:
  assumes x: "rx0 A \<le> x" "x \<le> rx1 A" and y: "ry0 A \<le> y" "y \<le> ry1 A"
    and nx: "0 \<le> rx0 A \<or> rx1 A \<le> 0" and ny: "0 \<le> ry0 A \<or> ry1 A \<le> 0"
    and c: "seedC0re g \<le> Re c" "Re c \<le> seedC1re g" "seedC0im g \<le> Im c" "Im c \<le> seedC1im g"
  defines "w \<equiv> (Complex x y) ^ 5 + Complex (FAKTORAre g) (FAKTORAim g) * Complex x y + c"
  shows "rx0 (getBoundingBoxfA_z5azc g A) \<le> Re w" "Re w \<le> rx1 (getBoundingBoxfA_z5azc g A)"
    "ry0 (getBoundingBoxfA_z5azc g A) \<le> Im w" "Im w \<le> ry1 (getBoundingBoxfA_z5azc g A)"
proof -
  note xx = sq_bounds [OF x nx] and yy = sq_bounds [OF y ny]
  note x3 = cube_mono [OF x(1)] cube_mono [OF x(2)] and y3 = cube_mono [OF y(1)] cube_mono [OF y(2)]
  note x4 = p4_bounds [OF x nx] and y4 = p4_bounds [OF y ny]
  note x5 = p5_mono [OF x(1)] p5_mono [OF x(2)] and y5 = p5_mono [OF y(1)] p5_mono [OF y(2)]
  note x6 = p6_bounds [OF x nx] and y6 = p6_bounds [OF y ny]
  note lin = scale_bounds [OF x, of "FAKTORAre g"] scale_bounds [OF y, of "FAKTORAim g"]
    scale_bounds [OF y, of "FAKTORAre g"] scale_bounds [OF x, of "FAKTORAim g"]
    scale_bounds4 [OF x, of "FAKTORAre g"] scale_bounds4 [OF y, of "FAKTORAim g"]
    scale_bounds4 [OF y, of "FAKTORAre g"] scale_bounds4 [OF x, of "FAKTORAim g"]
  note re_terms = x5 prod_bounds [OF x3 yy] prod_bounds [OF x y4]
  note im_terms = prod_bounds [OF x4 y] prod_bounds [OF xx y3] y5
  have Rw: "Re w = x * x * x * x * x - 10 * (x * x * x * (y * y)) + 5 * (x * (y * y * y * y)) + (FAKTORAre g * x - FAKTORAim g * y) + Re c"
    and Iw: "Im w = 5 * (x * x * x * x * y) - 10 * (x * x * (y * y * y)) + y * y * y * y * y + (FAKTORAim g * x + FAKTORAre g * y) + Im c"
    by (simp_all add: w_def Re_Im_pow5)
  show "rx0 (getBoundingBoxfA_z5azc g A) \<le> Re w"
    unfolding Rw getBoundingBoxfA_z5azc_def PlaneRect.select_convs using re_terms lin c by linarith
  show "Re w \<le> rx1 (getBoundingBoxfA_z5azc g A)"
    unfolding Rw getBoundingBoxfA_z5azc_def PlaneRect.select_convs using re_terms lin c by linarith
  show "ry0 (getBoundingBoxfA_z5azc g A) \<le> Im w"
    unfolding Iw getBoundingBoxfA_z5azc_def PlaneRect.select_convs using im_terms lin c by linarith
  show "Im w \<le> ry1 (getBoundingBoxfA_z5azc g A)"
    unfolding Iw getBoundingBoxfA_z5azc_def PlaneRect.select_convs using im_terms lin c by linarith
qed

lemma bbox_z6azc:
  assumes x: "rx0 A \<le> x" "x \<le> rx1 A" and y: "ry0 A \<le> y" "y \<le> ry1 A"
    and nx: "0 \<le> rx0 A \<or> rx1 A \<le> 0" and ny: "0 \<le> ry0 A \<or> ry1 A \<le> 0"
    and c: "seedC0re g \<le> Re c" "Re c \<le> seedC1re g" "seedC0im g \<le> Im c" "Im c \<le> seedC1im g"
  defines "w \<equiv> (Complex x y) ^ 6 + Complex (FAKTORAre g) (FAKTORAim g) * Complex x y + c"
  shows "rx0 (getBoundingBoxfA_z6azc g A) \<le> Re w" "Re w \<le> rx1 (getBoundingBoxfA_z6azc g A)"
    "ry0 (getBoundingBoxfA_z6azc g A) \<le> Im w" "Im w \<le> ry1 (getBoundingBoxfA_z6azc g A)"
proof -
  note xx = sq_bounds [OF x nx] and yy = sq_bounds [OF y ny]
  note x3 = cube_mono [OF x(1)] cube_mono [OF x(2)] and y3 = cube_mono [OF y(1)] cube_mono [OF y(2)]
  note x4 = p4_bounds [OF x nx] and y4 = p4_bounds [OF y ny]
  note x5 = p5_mono [OF x(1)] p5_mono [OF x(2)] and y5 = p5_mono [OF y(1)] p5_mono [OF y(2)]
  note x6 = p6_bounds [OF x nx] and y6 = p6_bounds [OF y ny]
  note lin = scale_bounds [OF x, of "FAKTORAre g"] scale_bounds [OF y, of "FAKTORAim g"]
    scale_bounds [OF y, of "FAKTORAre g"] scale_bounds [OF x, of "FAKTORAim g"]
    scale_bounds4 [OF x, of "FAKTORAre g"] scale_bounds4 [OF y, of "FAKTORAim g"]
    scale_bounds4 [OF y, of "FAKTORAre g"] scale_bounds4 [OF x, of "FAKTORAim g"]
  note re_terms = x6 y6 prod_bounds [OF x4 yy] prod_bounds [OF xx y4]
  note im_terms = prod_bounds [OF x5 y] prod_bounds [OF x3 y3] prod_bounds [OF x y5]
  have Rw: "Re w = x * x * x * x * x * x - 15 * (x * x * x * x * (y * y)) + 15 * (x * x * (y * y * y * y)) - y * y * y * y * y * y + (FAKTORAre g * x - FAKTORAim g * y) + Re c"
    and Iw: "Im w = 6 * (x * x * x * x * x * y) - 20 * (x * x * x * (y * y * y)) + 6 * (x * (y * y * y * y * y)) + (FAKTORAim g * x + FAKTORAre g * y) + Im c"
    by (simp_all add: w_def Re_Im_pow6)
  show "rx0 (getBoundingBoxfA_z6azc g A) \<le> Re w"
    unfolding Rw getBoundingBoxfA_z6azc_def PlaneRect.select_convs using re_terms lin c by linarith
  show "Re w \<le> rx1 (getBoundingBoxfA_z6azc g A)"
    unfolding Rw getBoundingBoxfA_z6azc_def PlaneRect.select_convs using re_terms lin c by linarith
  show "ry0 (getBoundingBoxfA_z6azc g A) \<le> Im w"
    unfolding Iw getBoundingBoxfA_z6azc_def PlaneRect.select_convs using im_terms lin c by linarith
  show "Im w \<le> ry1 (getBoundingBoxfA_z6azc g A)"
    unfolding Iw getBoundingBoxfA_z6azc_def PlaneRect.select_convs using im_terms lin c by linarith
qed

lemmas FUNC_defs =
  FUNC_Z2C_def FUNC_Z2AZC_def FUNC_Z3AZC_def FUNC_Z4AZC_def FUNC_Z5AZC_def FUNC_Z6AZC_def

lemma eval_setfunc_zdazc:
  "eval_arg_f (setfunc 1 a c) z = z ^ 2 + a * z + c"
  "eval_arg_f (setfunc 2 a c) z = z ^ 3 + a * z + c"
  "eval_arg_f (setfunc 3 a c) z = z ^ 4 + a * z + c"
  "eval_arg_f (setfunc 4 a c) z = z ^ 5 + a * z + c"
  "eval_arg_f (setfunc 5 a c) z = z ^ 6 + a * z + c"
      apply (simp_all add: setfunc_def FUNC_defs Let_def empty_Polynom_def clearCoeff_def
          MAXDEGREE_def complex_eq_iff)
      apply (simp_all add: setCoeff_def Let_def normQ_def COEFFZEROLIMIT_def eval_arg_f_def
          eval_nat_numeral)
      apply (simp_all add: algebra_simps complex_eq_iff)
  done

lemma eval_setfunc_z2c:
  assumes "f \<noteq> 1" "f \<noteq> 2" "f \<noteq> 3" "f \<noteq> 4" "f \<noteq> 5"
  shows "eval_arg_f (setfunc f a c) z = z ^ 2 + c"
  using assms
  apply (simp_all add: setfunc_def FUNC_defs Let_def empty_Polynom_def clearCoeff_def
      MAXDEGREE_def complex_eq_iff)
  apply (simp_all add: setCoeff_def Let_def normQ_def COEFFZEROLIMIT_def eval_arg_f_def
      eval_nat_numeral)
  done

text \<open>
  Claim C1, as amended. For every plane rectangle \<open>A\<close> that does not contain 0 in the
  interior of its x-range nor of its y-range, every point \<open>z = x + i*y\<close> of \<open>A\<close> and every
  seed \<open>c\<close> in the seed interval, the rectangle that the installed evaluator
  \<open>getBoundingBoxfA\<close> returns in exact real arithmetic contains \<open>p(z)\<close>, where \<open>p\<close> is the
  polynomial that \<open>setfunc\<close> stores for the same \<open>_FUNC\<close>, evaluated by \<open>eval_arg_f\<close>.
\<close>

theorem getBoundingBoxfA_encloses:
  assumes x: "rx0 A \<le> x" "x \<le> rx1 A" and y: "ry0 A \<le> y" "y \<le> ry1 A"
    and nx: "0 \<le> rx0 A \<or> rx1 A \<le> 0" and ny: "0 \<le> ry0 A \<or> ry1 A \<le> 0"
    and c: "seedC0re g \<le> Re c" "Re c \<le> seedC1re g" "seedC0im g \<le> Im c" "Im c \<le> seedC1im g"
  shows "in_rect (getBoundingBoxfA g A)
           (eval_arg_f (setfunc (FUNC g) (Complex (FAKTORAre g) (FAKTORAim g)) c) (Complex x y))"
proof -
  consider "FUNC g = 2" | "FUNC g = 3" | "FUNC g = 4" | "FUNC g = 5" | "FUNC g = 1"
    | "FUNC g \<noteq> 1" "FUNC g \<noteq> 2" "FUNC g \<noteq> 3" "FUNC g \<noteq> 4" "FUNC g \<noteq> 5"
    by blast
  then show ?thesis
  proof cases
    case 1
    then show ?thesis
      using bbox_z3azc [OF x y nx ny c]
      by (simp add: in_rect_def getBoundingBoxfA_def eval_setfunc_zdazc FUNC_defs)
  next
    case 2
    then show ?thesis
      using bbox_z4azc [OF x y nx ny c]
      by (simp add: in_rect_def getBoundingBoxfA_def eval_setfunc_zdazc FUNC_defs)
  next
    case 3
    then show ?thesis
      using bbox_z5azc [OF x y nx ny c]
      by (simp add: in_rect_def getBoundingBoxfA_def eval_setfunc_zdazc FUNC_defs)
  next
    case 4
    then show ?thesis
      using bbox_z6azc [OF x y nx ny c]
      by (simp add: in_rect_def getBoundingBoxfA_def eval_setfunc_zdazc FUNC_defs)
  next
    case 5
    then show ?thesis
      using bbox_z2azc [OF x y nx ny c]
      by (simp add: in_rect_def getBoundingBoxfA_def eval_setfunc_zdazc FUNC_defs)
  next
    case 6
    then show ?thesis
      using bbox_z2c [OF x y nx ny c]
      by (simp add: in_rect_def getBoundingBoxfA_def eval_setfunc_z2c FUNC_defs)
  qed
qed

theorem getBoundingBoxfA_encloses_witness:
  "in_rect (getBoundingBoxfA globals_z2c_c0 \<lparr> rx0 = 0, rx1 = 1, ry0 = 0, ry1 = 1 \<rparr>)
     (eval_arg_f (setfunc (FUNC globals_z2c_c0)
        (Complex (FAKTORAre globals_z2c_c0) (FAKTORAim globals_z2c_c0)) (Complex 0 0))
        (Complex (1 / 2) (1 / 2)))"
  using getBoundingBoxfA_encloses [of "\<lparr> rx0 = 0, rx1 = 1, ry0 = 0, ry1 = 1 \<rparr>" "1 / 2" "1 / 2"
      globals_z2c_c0 "Complex 0 0"]
  by (simp add: globals_z2c_c0_def)

text \<open>
  Claim C1 as stated fails for a rectangle that straddles an axis: on
  \<open>A = [-1, 1] x [0, 0]\<close> with seed 0 the evaluator for \<open>z^2 + c\<close> returns the lower bound
  \<open>fA.x0 = 1\<close>, while \<open>z = 0\<close> lies in \<open>A\<close> and \<open>p(0) = 0\<close>.
\<close>

theorem getBoundingBoxfA_z2c_straddle_counterexample:
  "rx0 \<lparr> rx0 = - 1, rx1 = 1, ry0 = 0, ry1 = 0 \<rparr> \<le> rx1 \<lparr> rx0 = - 1, rx1 = 1, ry0 = 0, ry1 = 0 \<rparr>
   \<and> ry0 \<lparr> rx0 = - 1, rx1 = 1, ry0 = 0, ry1 = 0 \<rparr> \<le> ry1 \<lparr> rx0 = - 1, rx1 = 1, ry0 = 0, ry1 = 0 \<rparr>
   \<and> rx0 \<lparr> rx0 = - 1, rx1 = 1, ry0 = 0, ry1 = 0 \<rparr> \<le> 0
   \<and> 0 \<le> rx1 \<lparr> rx0 = - 1, rx1 = 1, ry0 = 0, ry1 = 0 \<rparr>
   \<and> ry0 \<lparr> rx0 = - 1, rx1 = 1, ry0 = 0, ry1 = 0 \<rparr> \<le> 0
   \<and> 0 \<le> ry1 \<lparr> rx0 = - 1, rx1 = 1, ry0 = 0, ry1 = 0 \<rparr>
   \<and> \<not> rx0 (getBoundingBoxfA_z2c globals_z2c_c0 \<lparr> rx0 = - 1, rx1 = 1, ry0 = 0, ry1 = 0 \<rparr>)
         \<le> Re (eval_arg_f (setfunc FUNC_Z2C (Complex 0 0) (Complex 0 0)) (Complex 0 0))"
  by (simp add: getBoundingBoxfA_z2c_def globals_z2c_c0_def minimumD_def maximumD_def
      eval_setfunc_z2c FUNC_defs)

section \<open>The arena keeps allocations apart\<close>


lemma getMemory_cases:
  assumes "getMemory mgr aanz = Inr (mgr', p)"
  obtains (fresh) "current mgr = None \<or> freeFromIdx mgr + aanz + 2 \<ge> allocatedIdx mgr"
      "p = (heap_next mgr, 0)" "current mgr' = Some (heap_next mgr)" "freeFromIdx mgr' = aanz"
      "allocatedIdx mgr' = allocatePerBlock mgr" "heap_next mgr' = Suc (heap_next mgr)"
      "allocatePerBlock mgr' = allocatePerBlock mgr"
    | (same) b where "current mgr = Some b" "freeFromIdx mgr + aanz + 2 < allocatedIdx mgr"
      "p = (b, freeFromIdx mgr)" "current mgr' = Some b"
      "freeFromIdx mgr' = freeFromIdx mgr + aanz" "allocatedIdx mgr' = allocatedIdx mgr"
      "heap_next mgr' = heap_next mgr" "allocatePerBlock mgr' = allocatePerBlock mgr"
proof (cases "current mgr = None \<or> freeFromIdx mgr + aanz + 2 \<ge> allocatedIdx mgr")
  case True
  with assms show ?thesis
    by (intro fresh) (auto simp: getMemory_def Let_def split: if_splits)
next
  case False
  then obtain b where b: "current mgr = Some b" by auto
  with False assms show ?thesis
    by (intro same [of b]) (auto simp: getMemory_def Let_def split: if_splits)
qed

lemma getMemory_step:
  assumes inv: "mgr_inv mgr U" and g: "getMemory mgr aanz = Inr (mgr', p)" and a: "0 \<le> aanz"
  shows "words_of (p, aanz) \<inter> U = {}" and "mgr_inv mgr' (U \<union> words_of (p, aanz))"
    and "allocatePerBlock mgr' = allocatePerBlock mgr"
    and "aanz + 2 < allocatePerBlock mgr \<Longrightarrow>
           \<forall>(b, i) \<in> words_of (p, aanz). 0 \<le> i \<and> i < allocatePerBlock mgr"
proof -
  from inv have cur: "\<And>b. current mgr = Some b \<Longrightarrow> b < heap_next mgr \<and> 0 \<le> freeFromIdx mgr
        \<and> allocatedIdx mgr = allocatePerBlock mgr"
    and used: "\<And>b i. (b, i) \<in> U \<Longrightarrow> b < heap_next mgr \<and> (current mgr = Some b \<longrightarrow> i < freeFromIdx mgr)"
    by (auto simp: mgr_inv_def)
  from g show "words_of (p, aanz) \<inter> U = {}"
  proof (cases rule: getMemory_cases)
    case fresh
    then show ?thesis using used by (fastforce simp: words_of_def)
  next
    case (same b)
    then show ?thesis using used [of b] by (fastforce simp: words_of_def)
  qed
  from g show "mgr_inv mgr' (U \<union> words_of (p, aanz))"
  proof (cases rule: getMemory_cases)
    case fresh
    have "\<And>b i. (b, i) \<in> U \<Longrightarrow> b < Suc (heap_next mgr) \<and> b \<noteq> heap_next mgr"
      using used by fastforce
    then show ?thesis using fresh a unfolding mgr_inv_def words_of_def by auto
  next
    case (same b)
    have "\<And>b' i. (b', i) \<in> U \<Longrightarrow> b' < heap_next mgr \<and> (b' = b \<longrightarrow> i < freeFromIdx mgr + aanz)"
      using used same(1) a by fastforce
    then show ?thesis using same a cur [of b] unfolding mgr_inv_def words_of_def by auto
  qed
  from g show "allocatePerBlock mgr' = allocatePerBlock mgr"
    by (cases rule: getMemory_cases) auto
  assume fit: "aanz + 2 < allocatePerBlock mgr"
  from g show "\<forall>(b, i) \<in> words_of (p, aanz). 0 \<le> i \<and> i < allocatePerBlock mgr"
  proof (cases rule: getMemory_cases)
    case fresh
    then show ?thesis using fit by (auto simp: words_of_def)
  next
    case (same b)
    then show ?thesis using cur [of b] by (auto simp: words_of_def)
  qed
qed

lemma rows_apart_nth_less:
  "rows_apart ps \<Longrightarrow> i < j \<Longrightarrow> j < length ps \<Longrightarrow> words_of (ps ! i) \<inter> words_of (ps ! j) = {}"
proof (induction ps arbitrary: i j)
  case Nil
  then show ?case by simp
next
  case (Cons pa ps)
  from Cons.prems(2) obtain j' where j: "j = Suc j'" by (cases j) auto
  show ?case
  proof (cases i)
    case 0
    have "ps ! j' \<in> set ps" using Cons.prems(3) j by simp
    then show ?thesis using Cons.prems(1) 0 j by simp
  next
    case (Suc i')
    then show ?thesis using Cons.IH [of i' j'] Cons.prems j by simp
  qed
qed

lemma rows_apart_nth:
  assumes "rows_apart ps" "i < length ps" "j < length ps" "i \<noteq> j"
  shows "words_of (ps ! i) \<inter> words_of (ps ! j) = {}"
proof (cases "i < j")
  case True
  then show ?thesis using rows_apart_nth_less [OF assms(1) True assms(3)] by simp
next
  case False
  then have "j < i" using assms(4) by simp
  then show ?thesis using rows_apart_nth_less [OF assms(1) _ assms(2), of j] by blast
qed

lemma getMemory_calls_sizes:
  "getMemory_calls mgr as = Inr (mgr', ps) \<Longrightarrow> map snd ps = as"
proof (induction as arbitrary: mgr ps)
  case Nil
  then show ?case by simp
next
  case (Cons a as)
  from Cons.prems obtain m1 p ps' where "getMemory_calls m1 as = Inr (mgr', ps')" "ps = (p, a) # ps'"
    by (auto split: sum.splits)
  then show ?case using Cons.IH by simp
qed

lemma getMemory_calls_disjoint:
  assumes "mgr_inv mgr U" "getMemory_calls mgr as = Inr (mgr', ps)" "\<forall>a \<in> set as. 0 \<le> a"
  shows "(\<forall>pa \<in> set ps. words_of pa \<inter> U = {}) \<and> rows_apart ps"
  using assms
proof (induction as arbitrary: mgr U ps)
  case Nil
  then show ?case by simp
next
  case (Cons a as)
  from Cons.prems(2) obtain m1 p where g1: "getMemory mgr a = Inr (m1, p)"
    by (auto split: sum.splits)
  with Cons.prems(2) obtain ps' where rest: "getMemory_calls m1 as = Inr (mgr', ps')"
    and ps: "ps = (p, a) # ps'"
    by (auto split: sum.splits)
  have a0: "0 \<le> a" using Cons.prems(3) by simp
  note st = getMemory_step [OF Cons.prems(1) g1 a0]
  have as0: "\<forall>a \<in> set as. 0 \<le> a" using Cons.prems(3) by simp
  have IH: "(\<forall>pa \<in> set ps'. words_of pa \<inter> (U \<union> words_of (p, a)) = {}) \<and> rows_apart ps'"
    by (rule Cons.IH [OF st(2) rest as0])
  have 1: "\<forall>pa \<in> set ps'. words_of pa \<inter> U = {}" using IH by blast
  have 2: "\<forall>pa \<in> set ps'. words_of (p, a) \<inter> words_of pa = {}" using IH by blast
  show ?case unfolding ps using 1 2 st(1) IH by simp
qed

lemma getMemory_calls_in_block:
  assumes "mgr_inv mgr U" "getMemory_calls mgr as = Inr (mgr', ps)"
    "\<forall>a \<in> set as. 0 \<le> a \<and> a + 2 < allocatePerBlock mgr"
  shows "\<forall>pa \<in> set ps. \<forall>(b, i) \<in> words_of pa. 0 \<le> i \<and> i < allocatePerBlock mgr"
  using assms
proof (induction as arbitrary: mgr U mgr' ps)
  case Nil
  then show ?case by simp
next
  case (Cons a as)
  from Cons.prems(2) obtain m1 p where g1: "getMemory mgr a = Inr (m1, p)"
    by (auto split: sum.splits)
  with Cons.prems(2) obtain ps' where rest: "getMemory_calls m1 as = Inr (mgr', ps')"
    and ps: "ps = (p, a) # ps'"
    by (auto split: sum.splits)
  have a0: "0 \<le> a" "a + 2 < allocatePerBlock mgr" using Cons.prems(3) by simp_all
  note st = getMemory_step [OF Cons.prems(1) g1 a0(1)]
  have "\<forall>pa \<in> set ps'. \<forall>(b, i) \<in> words_of pa. 0 \<le> i \<and> i < allocatePerBlock m1"
    using Cons.IH [OF st(2) rest] Cons.prems(3) st(3) by simp
  then show ?case using st(3) st(4) [OF a0(2)] ps by simp
qed


lemma in_words_of: "0 \<le> m \<Longrightarrow> m < a \<Longrightarrow> (pb, po + m) \<in> words_of ((pb, po), a)"
  by (simp add: words_of_def)

lemma write_other_pair:
  assumes "words_of ((pb, po), a) \<inter> words_of ((qb, qo), b) = {}" "0 \<le> m" "m < a" "0 \<le> n" "n < b"
  shows "read_word (write_word st (pb, po) m v) (qb, qo) n = read_word st (qb, qo) n"
proof -
  have 1: "(pb, po + m) \<in> words_of ((pb, po), a)" using assms(2,3) by (rule in_words_of)
  have 2: "(qb, qo + n) \<in> words_of ((qb, qo), b)" using assms(4,5) by (rule in_words_of)
  have "(qb, qo + n) \<noteq> (pb, po + m)"
  proof
    assume "(qb, qo + n) = (pb, po + m)"
    then have "(pb, po + m) \<in> words_of ((qb, qo), b)" using 2 by simp
    then show False using 1 assms(1) by blast
  qed
  then show ?thesis by (auto simp add: read_word_def write_word_def)
qed

lemma write_other:
  assumes "words_of (p, a) \<inter> words_of (q, b) = {}" "0 \<le> m" "m < a" "0 \<le> n" "n < b"
  shows "read_word (write_word st p m v) q n = read_word st q n"
  using assms write_other_pair [of "fst p" "snd p" a "fst q" "snd q" b m n st v] by simp

text \<open>
  Claim C10. Start from an allocator state with no current block (as the constructor and
  \<open>FreeAll\<close> leave it) and call \<open>getMemory\<close> any number of times without \<open>FreeAll\<close>, each
  request of a size \<open>aanz\<close> with \<open>0 \<le> aanz\<close> and \<open>aanz + 2 < allocatePerBlock\<close>. If no call
  exits, any two different calls return disjoint word ranges, every range lies inside
  its block, and writing a word of one allocation leaves every word of any other
  allocation as it was.
\<close>

theorem getMemory_rows_disjoint:
  assumes "current mgr = None"
    and "getMemory_calls mgr as = Inr (mgr', ps)"
    and "\<forall>a \<in> set as. 0 \<le> a \<and> a + 2 < allocatePerBlock mgr"
    and "i < length ps" "j < length ps" "i \<noteq> j"
  shows "words_of (ps ! i) \<inter> words_of (ps ! j) = {} \<and>
         (\<forall>(b, k) \<in> words_of (ps ! i). 0 \<le> k \<and> k < allocatePerBlock mgr) \<and>
         (\<forall>m n st v. 0 \<le> m \<and> m < snd (ps ! i) \<and> 0 \<le> n \<and> n < snd (ps ! j) \<longrightarrow>
            read_word (write_word st (fst (ps ! i)) m v) (fst (ps ! j)) n
              = read_word st (fst (ps ! j)) n)"
proof -
  have inv: "mgr_inv mgr {}" using assms(1) by (simp add: mgr_inv_def)
  have nonneg: "\<forall>a \<in> set as. 0 \<le> a" using assms(3) by simp
  have apart: "rows_apart ps"
    using getMemory_calls_disjoint [OF inv assms(2) nonneg] by simp
  have disj: "words_of (ps ! i) \<inter> words_of (ps ! j) = {}"
    by (rule rows_apart_nth [OF apart assms(4,5,6)])
  have "ps ! i \<in> set ps" using assms(4) by simp
  then have inblock: "\<forall>(b, k) \<in> words_of (ps ! i). 0 \<le> k \<and> k < allocatePerBlock mgr"
    using getMemory_calls_in_block [OF inv assms(2,3)] by blast
  have wr: "\<forall>m n st v. 0 \<le> m \<and> m < snd (ps ! i) \<and> 0 \<le> n \<and> n < snd (ps ! j) \<longrightarrow>
            read_word (write_word st (fst (ps ! i)) m v) (fst (ps ! j)) n
              = read_word st (fst (ps ! j)) n"
    using disj write_other [of "fst (ps ! i)" "snd (ps ! i)" "fst (ps ! j)" "snd (ps ! j)"]
    by simp
  show ?thesis using disj inblock wr by blast
qed

lemma getMemory_calls_two_rows:
  "getMemory_calls (FreeAll ArrayDDByteManager_init) [3, 3] =
     Inr (\<lparr> current = Some 0, allocatedIdx = 268435456, freeFromIdx = 6,
            allocatePerBlock = 268435456, ptr = [0], anzptr = 1, heap_next = 1 \<rparr>,
          [((0, 0), 3), ((0, 3), 3)])"
  by (simp add: getMemory_def FreeAll_def ArrayDDByteManager_init_def MAXPTR_def CHUNKSIZE_def
      Let_def)

theorem getMemory_rows_disjoint_witness:
  "getMemory_calls (FreeAll ArrayDDByteManager_init) [3, 3] =
     Inr (\<lparr> current = Some 0, allocatedIdx = 268435456, freeFromIdx = 6,
            allocatePerBlock = 268435456, ptr = [0], anzptr = 1, heap_next = 1 \<rparr>,
          [((0, 0), 3), ((0, 3), 3)]) \<and>
   words_of ((0, 0), 3) \<inter> words_of ((0, 3), 3) = {} \<and>
   read_word (write_word (\<lambda>a. 0) (0, 0) 2 7) (0, 3) 0 = read_word (\<lambda>a. 0) (0, 3) 0"
proof -
  have "words_of ((0, 0), 3) \<inter> words_of ((0, 3), 3) = {} \<and>
        (\<forall>m n st v. 0 \<le> m \<and> m < 3 \<and> 0 \<le> n \<and> n < 3 \<longrightarrow>
           read_word (write_word st (0, 0) m v) (0, 3) n = read_word st (0, 3) n)"
    using getMemory_rows_disjoint [of "FreeAll ArrayDDByteManager_init" "[3, 3]"
        "\<lparr> current = Some 0, allocatedIdx = 268435456, freeFromIdx = 6,
           allocatePerBlock = 268435456, ptr = [0], anzptr = 1, heap_next = 1 \<rparr>"
        "[((0, 0), 3), ((0, 3), 3)]" 0 1]
      getMemory_calls_two_rows
    by (simp add: FreeAll_def ArrayDDByteManager_init_def CHUNKSIZE_def)
  then show ?thesis using getMemory_calls_two_rows by simp
qed
section \<open>The order of grids by their POTW bits\<close>


subsection \<open>Words\<close>

lemma tmpf_potw: "((ucast ((w :: DDBYTE) AND 1) :: BYTE) = SQUARE_POTW) \<longleftrightarrow> bit w 0"
proof -
  have "w AND 1 = (if odd w then 1 else 0)"
    by (simp add: and_one_eq mod_2_eq_odd)
  then show ?thesis by (simp add: SQUARE_POTW_def bit_0)
qed

lemma word_differ: "(a :: DDBYTE) \<noteq> b \<Longrightarrow> \<exists>n < 32. bit a n \<noteq> bit b n"
proof (rule ccontr)
  assume ne: "a \<noteq> b" and "\<not> (\<exists>n<32. bit a n \<noteq> bit b n)"
  then have "\<And>n. n < LENGTH(32) \<Longrightarrow> bit a n \<longleftrightarrow> bit b n" by simp
  then have "a = b" by (rule bit_word_eqI)
  with ne show False by simp
qed

lemma drop_bit_bit0: "bit (drop_bit n (w :: DDBYTE)) 0 \<longleftrightarrow> bit w n"
  by (simp add: bit_drop_bit_eq)

lemma bit_push1: "n < 32 \<Longrightarrow> bit (push_bit n (1 :: DDBYTE)) m \<longleftrightarrow> m = n"
  by (auto simp add: bit_push_bit_iff bit_1_iff bit_exp_iff)

lemma word_le_refl: "word_le a a"
  by (simp add: word_le_def)

lemma word_le_trans: "word_le a b \<Longrightarrow> word_le b c \<Longrightarrow> word_le a c"
  by (simp add: word_le_def)

lemma word_le_or: "word_le a b \<Longrightarrow> word_le a (b OR x)"
  by (simp add: word_le_def bit_or_iff)

lemma flip_differs:
  assumes "n < 32" "\<not> bit ff0 n"
  shows "fneu OR push_bit n 1 \<noteq> (ff0 :: DDBYTE)"
proof
  assume "fneu OR push_bit n 1 = ff0"
  then have "bit ff0 n = bit (fneu OR push_bit n 1) n" by simp
  then show False using assms by (simp add: bit_or_iff bit_exp_iff)
qed

lemma gray_bits_mono: "word_le a b \<Longrightarrow> gray_bits b \<le> gray_bits a"
  unfolding gray_bits_def word_le_def
  by (rule card_mono) auto

lemma gray_bits_strict:
  assumes "word_le a b" "a \<noteq> b"
  shows "gray_bits b < gray_bits a"
proof -
  from assms(2) obtain n where n: "n < 32" "bit a n \<noteq> bit b n"
    using word_differ by blast
  with assms(1) have bn: "bit b n" "\<not> bit a n" by (auto simp: word_le_def)
  have sub: "{n. n < 32 \<and> \<not> bit b n} \<subseteq> {n. n < 32 \<and> \<not> bit a n}"
    using assms(1) by (auto simp: word_le_def)
  have "n \<in> {n. n < 32 \<and> \<not> bit a n}" "n \<notin> {n. n < 32 \<and> \<not> bit b n}"
    using n bn by simp_all
  with sub have "{n. n < 32 \<and> \<not> bit b n} \<subset> {n. n < 32 \<and> \<not> bit a n}" by blast
  then show ?thesis unfolding gray_bits_def by (intro psubset_card_mono) auto
qed

lemma gray_bits_le32: "gray_bits w \<le> 32"
proof -
  have "card {n. n < 32 \<and> \<not> bit w n} \<le> card {n::nat. n < 32}"
    by (rule card_mono) auto
  then show ?thesis by (simp add: gray_bits_def)
qed

subsection \<open>Lists\<close>

lemma list_all2_update_right:
  assumes "list_all2 P xs ys" "k < length ys \<Longrightarrow> P (xs ! k) v"
  shows "list_all2 P xs (ys[k := v])"
proof (cases "k < length ys")
  case True
  then show ?thesis using assms by (simp add: list_all2_conv_all_nth nth_list_update)
next
  case False
  then have "ys[k := v] = ys" by (simp add: list_update_beyond)
  then show ?thesis using assms(1) by simp
qed

lemma sum_list_map_update_less:
  fixes f :: "'a \<Rightarrow> nat"
  assumes "k < length xs" "f v < f (xs ! k)"
  shows "sum_list (map f (xs[k := v])) < sum_list (map f xs)"
  using assms
proof (induction xs arbitrary: k)
  case Nil
  then show ?case by simp
next
  case (Cons x xs)
  then show ?case by (cases k) auto
qed

lemma sum_list_map_all2_le:
  fixes f :: "'a \<Rightarrow> nat"
  assumes "list_all2 (\<lambda>a b. f b \<le> f a) xs ys"
  shows "sum_list (map f ys) \<le> sum_list (map f xs)"
  using assms by (induction rule: list_all2_induct) auto

subsection \<open>Rows and grids\<close>

lemma row_le_refl: "row_le r r"
  by (cases r) (simp_all add: list_all2_same word_le_refl)

lemma row_le_trans: "row_le a b \<Longrightarrow> row_le b c \<Longrightarrow> row_le a c"
proof (cases a; cases b; cases c)
  fix x y z assume "a = Some x" "b = Some y" "c = Some z" "row_le a b" "row_le b c"
  then show ?thesis
    using list_all2_trans [of word_le word_le word_le x y z] word_le_trans by auto
qed auto

lemma row_gray_mono: "row_le a b \<Longrightarrow> row_gray b \<le> row_gray a"
proof (cases a; cases b)
  fix x y assume ab: "a = Some x" "b = Some y" and "row_le a b"
  then have "list_all2 (\<lambda>u v. gray_bits v \<le> gray_bits u) x y"
    by (auto elim!: list_all2_mono simp: gray_bits_mono)
  then show ?thesis using ab by (simp add: sum_list_map_all2_le)
qed auto

lemma grid_le_refl: "grid_le G G"
  by (simp add: grid_le_def list_all2_same row_le_refl)

lemma grid_le_trans: "grid_le A B \<Longrightarrow> grid_le B C \<Longrightarrow> grid_le A C"
  unfolding grid_le_def
  using list_all2_trans [of row_le row_le row_le "ispotwY A" "ispotwY B" "ispotwY C"] row_le_trans
  by auto

lemma grid_le_gray_count: "grid_le G G' \<Longrightarrow> gray_count G' \<le> gray_count G"
proof -
  assume "grid_le G G'"
  then have "list_all2 (\<lambda>u v. row_gray v \<le> row_gray u) (ispotwY G) (ispotwY G')"
    by (auto simp: grid_le_def elim!: list_all2_mono simp: row_gray_mono)
  then show ?thesis by (simp add: gray_count_def sum_list_map_all2_le)
qed

lemma grid_le_potw_bits: "grid_le G G' \<Longrightarrow> potw_bits G \<subseteq> potw_bits G'"
proof
  fix c assume le: "grid_le G G'" and c: "c \<in> potw_bits G"
  obtain r j b where cc: "c = (r, j, b)" by (cases c)
  from c cc obtain ws where ws: "r < length (ispotwY G)" "ispotwY G ! r = Some ws"
    "j < length ws" "b < 32" "bit (ws ! j) b"
    by (auto simp: potw_bits_def)
  from le have all: "list_all2 row_le (ispotwY G) (ispotwY G')" by (simp add: grid_le_def)
  then have len: "length (ispotwY G') = length (ispotwY G)" by (simp add: list_all2_lengthD)
  from all ws(1) have "row_le (ispotwY G ! r) (ispotwY G' ! r)" by (simp add: list_all2_nthD)
  with ws(2) obtain ws' where ws': "ispotwY G' ! r = Some ws'" "list_all2 word_le ws ws'"
    by (cases "ispotwY G' ! r") auto
  then have "length ws' = length ws" "word_le (ws ! j) (ws' ! j)"
    using ws(3) by (simp_all add: list_all2_lengthD list_all2_nthD)
  then show "c \<in> potw_bits G'"
    using ws ws' len cc by (auto simp: potw_bits_def word_le_def)
qed



subsection \<open>The loop over the bits of a word\<close>

lemma bit_body_inv:
  assumes "n < 32" "bit_inv ff0 n st"
  shows "bit_inv ff0 (Suc n) (bit_body g G xc a0 a1 st n)"
proof -
  obtain ff fneu fch gt where st: "st = (ff, fneu, fch, gt)" by (cases st) auto
  from assms(2) st have inv: "ff = drop_bit n ff0" "word_le ff0 fneu" "fch \<longleftrightarrow> fneu \<noteq> ff0"
    by (simp_all add: bit_inv_def)
  have dr: "drop_bit 1 ff = drop_bit (Suc n) ff0" using inv(1) by (simp add: drop_bit_drop_bit)
  have t: "(ucast (ff AND 1) :: BYTE) = SQUARE_POTW \<longleftrightarrow> bit ff0 n"
    using inv(1) by (simp add: tmpf_potw drop_bit_bit0)
  show ?thesis
  proof (cases "bit ff0 n")
    case True
    then show ?thesis using t dr inv by (simp add: st bit_body_def bit_inv_def)
  next
    case False
    note fl = flip_differs [OF assms(1) False, of fneu]
    have le: "word_le ff0 (fneu OR push_bit n 1)" by (rule word_le_or [OF inv(2)])
    from False t have nt: "(ucast (ff AND 1) :: BYTE) \<noteq> SQUARE_POTW" by simp
    show ?thesis
      unfolding st bit_body_def bit_inv_def Let_def prod.case
      using nt dr inv fl le by (simp only: if_False split: if_splits) auto
  qed
qed

lemma bit_loop_inv:
  assumes "n \<le> 32"
  shows "bit_inv ff0 n (foldl (bit_body g G xc a0 a1) (ff0, ff0, False, gt) [0..<n])"
  using assms
proof (induction n)
  case 0
  then show ?case by (simp add: bit_inv_def word_le_refl)
next
  case (Suc n)
  then have "bit_inv ff0 n (foldl (bit_body g G xc a0 a1) (ff0, ff0, False, gt) [0..<n])"
    and "n < 32" by simp_all
  then show ?case using bit_body_inv by simp
qed



subsection \<open>Writing a word back\<close>

lemma GET32_MY_stored:
  assumes "GET32_MY G m y \<noteq> ALL32POTW"
  obtains ws where "sy0 (enclosementall G) \<le> y" "y \<le> sy1 (enclosementall G)"
    "mem0_all G \<le> m" "m \<le> mem1_all G"
    "ispotwY G ! nat (y - sy0 (enclosementall G)) = Some ws"
    "GET32_MY G m y = ws ! nat (m - mem0_all G)"
  using assms by (auto simp: GET32_MY_def split: if_splits option.splits)

lemma grid_wf_row:
  assumes "grid_wf G" "sy0 (enclosementall G) \<le> y" "y \<le> sy1 (enclosementall G)"
    "ispotwY G ! nat (y - sy0 (enclosementall G)) = Some ws" "mem0_all G \<le> m" "m \<le> mem1_all G"
  shows "nat (y - sy0 (enclosementall G)) < length (ispotwY G)"
    and "nat (m - mem0_all G) < length ws"
proof -
  show r: "nat (y - sy0 (enclosementall G)) < length (ispotwY G)"
    using assms(1,2,3) by (simp add: grid_wf_def)
  then have "Some ws \<in> set (ispotwY G)" using assms(4) nth_mem by metis
  then have "length ws = nat (mem1_all G - mem0_all G + 1)" using assms(1) by (simp add: grid_wf_def)
  then show "nat (m - mem0_all G) < length ws" using assms(5,6) by simp
qed

lemma SET32_MY_write:
  assumes ff: "GET32_MY G m y \<noteq> ALL32POTW" and le: "word_le (GET32_MY G m y) fneu"
  shows "\<exists>G'. SET32_MY G m y fneu = Inr G' \<and> grid_le G G' \<and> ywithgray G' = ywithgray G \<and>
           (grid_wf G \<longrightarrow> grid_wf G' \<and>
              (fneu \<noteq> GET32_MY G m y \<longrightarrow> gray_count G' < gray_count G))"
proof -
  from ff obtain ws where st: "sy0 (enclosementall G) \<le> y" "y \<le> sy1 (enclosementall G)"
    "mem0_all G \<le> m" "m \<le> mem1_all G"
    "ispotwY G ! nat (y - sy0 (enclosementall G)) = Some ws"
    "GET32_MY G m y = ws ! nat (m - mem0_all G)"
    by (rule GET32_MY_stored)
  define r where "r = nat (y - sy0 (enclosementall G))"
  define j where "j = nat (m - mem0_all G)"
  define G' where "G' = G\<lparr> ispotwY := (ispotwY G)[r := Some (ws[j := fneu])] \<rparr>"
  have set: "SET32_MY G m y fneu = Inr G'"
    using st by (simp add: SET32_MY_def G'_def r_def j_def)
  have wle: "list_all2 word_le ws (ws[j := fneu])"
    using le st(6) by (intro list_all2_update_right) (simp_all add: list_all2_same word_le_refl j_def)
  have rle: "list_all2 row_le (ispotwY G) ((ispotwY G)[r := Some (ws[j := fneu])])"
    using wle st(5) by (intro list_all2_update_right) (simp_all add: list_all2_same row_le_refl r_def)
  have gle: "grid_le G G'" using rle by (simp add: grid_le_def G'_def)
  have yw: "ywithgray G' = ywithgray G" by (simp add: G'_def)
  have wf: "grid_wf G'" if w: "grid_wf G"
  proof -
    have "Some ws \<in> set (ispotwY G)"
      using grid_wf_row(1) [OF w st(1,2,5,3,4)] st(5) nth_mem by metis
    then have lw: "length ws = nat (mem1_all G - mem0_all G + 1)" using w by (simp add: grid_wf_def)
    have "set ((ispotwY G)[r := Some (ws[j := fneu])]) \<subseteq> insert (Some (ws[j := fneu])) (set (ispotwY G))"
      by (rule set_update_subset_insert)
    then show ?thesis using w lw by (auto simp: grid_wf_def G'_def)
  qed
  have strict: "gray_count G' < gray_count G" if w: "grid_wf G" and ne: "fneu \<noteq> GET32_MY G m y"
  proof -
    note rj = grid_wf_row [OF w st(1,2,5,3,4)]
    have "gray_bits fneu < gray_bits (ws ! j)"
      using gray_bits_strict [OF le] ne st(6) by (simp add: j_def)
    then have "sum_list (map gray_bits (ws[j := fneu])) < sum_list (map gray_bits ws)"
      using rj(2) by (intro sum_list_map_update_less) (simp_all add: j_def)
    then have "row_gray (Some (ws[j := fneu])) < row_gray (ispotwY G ! r)"
      using st(5) by (simp add: r_def)
    then have "sum_list (map row_gray ((ispotwY G)[r := Some (ws[j := fneu])]))
               < sum_list (map row_gray (ispotwY G))"
      using rj(1) by (intro sum_list_map_update_less) (simp_all add: r_def)
    then show ?thesis by (simp add: gray_count_def G'_def)
  qed
  show ?thesis using set gle yw wf strict by blast
qed

subsection \<open>The loop over the words of a row\<close>

lemma step_ok_refl: "step_ok s s"
  by (cases s) (simp add: step_ok_def grid_le_refl)

lemma step_ok_trans:
  assumes "step_ok a b" "step_ok b c"
  shows "step_ok a c"
proof -
  obtain G1 c1 G2 c2 G3 c3 where s: "a = (G1, c1)" "b = (G2, c2)" "c = (G3, c3)"
    by (cases a; cases b; cases c) auto
  from assms s have le: "grid_le G1 G2" "grid_le G2 G3" by (simp_all add: step_ok_def)
  note gc = grid_le_gray_count [OF le(1)] grid_le_gray_count [OF le(2)]
  have "grid_le G1 G3" using le by (rule grid_le_trans)
  then show ?thesis using assms s gc unfolding step_ok_def by (simp only: prod.case) fastforce
qed

lemma word_body_ok:
  obtains G' ch' gt' where "word_body g y a0 a1 (G, ch, gt) m = Inr (G', ch', gt')"
    "step_ok (G, ch) (G', ch')" "ywithgray G' = ywithgray G"
proof (cases "GET32_MY G m y = ALL32POTW")
  case True
  then have "word_body g y a0 a1 (G, ch, gt) m = Inr (G, ch, gt)"
    by (simp add: word_body_def)
  then show ?thesis using that step_ok_refl by blast
next
  case False
  define ff0 where "ff0 = GET32_MY G m y"
  obtain ff' fneu fch gt' where fl:
    "foldl (bit_body g G (m * 2 ^ SHIFTPERDDBYTE) a0 a1) (ff0, ff0, False, gt) [0..<32]
       = (ff', fneu, fch, gt')"
    using prod_cases4 by blast
  have "bit_inv ff0 32 (ff', fneu, fch, gt')"
    using bit_loop_inv [of 32 ff0 g G "m * 2 ^ SHIFTPERDDBYTE" a0 a1 gt] fl by simp
  then have inv: "word_le ff0 fneu" "fch \<longleftrightarrow> fneu \<noteq> ff0" by (simp_all add: bit_inv_def)
  show ?thesis
  proof (cases fch)
    case True
    from False inv(1) obtain G' where G': "SET32_MY G m y fneu = Inr G'" "grid_le G G'"
      "ywithgray G' = ywithgray G" "grid_wf G \<longrightarrow> grid_wf G'"
      "grid_wf G \<longrightarrow> fneu \<noteq> GET32_MY G m y \<longrightarrow> gray_count G' < gray_count G"
      unfolding ff0_def using SET32_MY_write [of G m y fneu] by blast
    have wb: "word_body g y a0 a1 (G, ch, gt) m = Inr (G', True, gt')"
      using False fl True G'(1) by (simp add: word_body_def ff0_def Let_def)
    have "step_ok (G, ch) (G', True)"
      using G'(2,4,5) inv(2) True by (auto simp: step_ok_def ff0_def)
    then show ?thesis using that wb G'(3) by blast
  next
    case F: False
    have wb: "word_body g y a0 a1 (G, ch, gt) m = Inr (G, ch, gt')"
      using False fl F by (simp add: word_body_def ff0_def Let_def)
    then show ?thesis using that step_ok_refl by blast
  qed
qed



subsection \<open>Loops that thread a state\<close>

lemma foldE_rel:
  assumes refl: "\<And>s. R s s" and trans: "\<And>a b c. R a b \<Longrightarrow> R b c \<Longrightarrow> R a c"
    and step: "\<And>s x. x \<in> set xs \<Longrightarrow> \<exists>s'. f s x = Inr s' \<and> R s s'"
  shows "\<exists>s'. foldE f xs s = Inr s' \<and> R s s'"
  using step
proof (induction xs arbitrary: s)
  case Nil
  then show ?case using refl by simp
next
  case (Cons x xs)
  from Cons.prems [of x s] obtain s1 where s1: "f s x = Inr s1" "R s s1" by auto
  from Cons.IH [of s1] Cons.prems obtain s2 where s2: "foldE f xs s1 = Inr s2" "R s1 s2"
    by (meson list.set_intros(2))
  show ?case using s1 s2 trans by auto
qed

subsection \<open>Rows and sweeps\<close>

lemma step_ok_ywithgray:
  assumes "step_ok s (G', c)"
  shows "step_ok s (G'\<lparr> ywithgray := (ywithgray G')[k := v] \<rparr>, c)"
proof -
  obtain G ch where s: "s = (G, ch)" by (cases s)
  have "gray_count (G'\<lparr> ywithgray := (ywithgray G')[k := v] \<rparr>) = gray_count G'"
    by (simp add: gray_count_def)
  moreover have "grid_wf G' \<Longrightarrow> grid_wf (G'\<lparr> ywithgray := (ywithgray G')[k := v] \<rparr>)"
    by (simp add: grid_wf_def)
  moreover have "grid_le G G' \<Longrightarrow> grid_le G (G'\<lparr> ywithgray := (ywithgray G')[k := v] \<rparr>)"
    by (simp add: grid_le_def)
  ultimately show ?thesis using assms unfolding s step_ok_def by (simp only: prod.case) auto
qed

lemma words_loop_ok:
  "\<exists>G' ch' gt'. foldE (word_body g y a0 a1) ms (G, ch, gt) = Inr (G', ch', gt') \<and>
     step_ok (G, ch) (G', ch')"
proof -
  have "\<exists>s'. foldE (word_body g y a0 a1) ms (G, ch, gt) = Inr s' \<and> word_rel (G, ch, gt) s'"
  proof (rule foldE_rel)
    show "\<And>s. word_rel s s" by (simp add: word_rel_def step_ok_refl)
    show "\<And>a b c. word_rel a b \<Longrightarrow> word_rel b c \<Longrightarrow> word_rel a c"
      unfolding word_rel_def by (rule step_ok_trans)
    fix s :: "Grid \<times> bool \<times> bool" and m :: int
    obtain G1 c1 t1 where s: "s = (G1, c1, t1)" by (cases s) auto
    obtain G' ch' gt' where "word_body g y a0 a1 (G1, c1, t1) m = Inr (G', ch', gt')"
      "step_ok (G1, c1) (G', ch')"
      by (rule word_body_ok)
    then show "\<exists>s'. word_body g y a0 a1 s m = Inr s' \<and> word_rel s s'"
      unfolding s word_rel_def by auto
  qed
  then show ?thesis unfolding word_rel_def by auto
qed

lemma row_body_ok:
  "\<exists>s'. row_body g s y = Inr s' \<and> step_ok s s'"
proof -
  obtain G ch where s: "s = (G, ch)" by (cases s)
  show ?thesis
  proof (cases "ywithgray G ! nat (y - sy0 (enclosementall G))")
    case False
    then show ?thesis by (simp add: s row_body_def step_ok_refl)
  next
    case True
    define a0 where "a0 = real_of_int y * scaleRangePerPixel g + COMPLETE0 g"
    obtain G' ch' gt' where w:
      "foldE (word_body g y a0 (a0 + scaleRangePerPixel g)) [mem0_all G..mem1_all G] (G, ch, False)
         = Inr (G', ch', gt')" "step_ok (G, ch) (G', ch')"
      using words_loop_ok by blast
    show ?thesis
    proof (cases gt')
      case True
      then show ?thesis using \<open>ywithgray G ! nat (y - sy0 (enclosementall G))\<close> w
        by (simp add: s row_body_def Let_def a0_def)
    next
      case False
      then show ?thesis using \<open>ywithgray G ! nat (y - sy0 (enclosementall G))\<close> w
          step_ok_ywithgray [OF w(2)]
        by (simp add: s row_body_def Let_def a0_def)
    qed
  qed
qed

lemma sweep_ok: "\<exists>G' ch. sweep g G = Inr (G', ch) \<and> step_ok (G, False) (G', ch)"
proof -
  have "\<exists>s'. foldE (row_body g) [sy0 (enclosementall G)..sy1 (enclosementall G)] (G, False) = Inr s'
          \<and> step_ok (G, False) s'"
  proof (rule foldE_rel)
    show "\<And>s. step_ok s s" by (rule step_ok_refl)
    show "\<And>a b c. step_ok a b \<Longrightarrow> step_ok b c \<Longrightarrow> step_ok a c" by (rule step_ok_trans)
    show "\<And>s x. \<exists>s'. row_body g s x = Inr s' \<and> step_ok s s'" by (rule row_body_ok)
  qed
  then show ?thesis by (auto simp: sweep_def)
qed

lemma sweep_cases:
  obtains G' ch where "sweep g G = Inr (G', ch)" "grid_le G G'"
    "grid_wf G \<longrightarrow> grid_wf G'" "grid_wf G \<and> ch \<longrightarrow> gray_count G' < gray_count G"
    "\<not> ch \<longrightarrow> ispotwY G' = ispotwY G"
  using sweep_ok [of g G] by (auto simp: step_ok_def)

subsection \<open>The while loop\<close>

lemma propagate_terminates:
  assumes "grid_wf G"
  shows "\<exists>G'. propagate g G = Some (Inr G') \<and> grid_le G G' \<and> grid_wf G'"
  using assms
proof (induction "gray_count G" arbitrary: G rule: less_induct)
  case less
  obtain G1 ch where sw: "sweep g G = Inr (G1, ch)" "grid_le G G1"
    "grid_wf G \<longrightarrow> grid_wf G1" "grid_wf G \<and> ch \<longrightarrow> gray_count G1 < gray_count G"
    by (rule sweep_cases)
  show ?case
  proof (cases ch)
    case True
    then have "gray_count G1 < gray_count G" "grid_wf G1" using sw less.prems by simp_all
    then obtain G' where G': "propagate g G1 = Some (Inr G')" "grid_le G1 G'" "grid_wf G'"
      using less.hyps by blast
    have "propagate g G = propagate g G1"
      using sw(1) True by (subst propagate.simps) simp
    then show ?thesis using G' sw(2) grid_le_trans by auto
  next
    case False
    have "propagate g G = Some (Inr G1)"
      using sw(1) False by (subst propagate.simps) simp
    then show ?thesis using sw less.prems by auto
  qed
qed

subsection \<open>What a cell reads as\<close>

lemma GET32_MY_mono:
  assumes "grid_le G G'" "grid_wf G"
  shows "word_le (GET32_MY G m y) (GET32_MY G' m y)"
proof (cases "sy0 (enclosementall G) \<le> y \<and> y \<le> sy1 (enclosementall G)")
  case False
  then show ?thesis using assms(1) by (auto simp: GET32_MY_def grid_le_def word_le_refl)
next
  case True
  define r where "r = nat (y - sy0 (enclosementall G))"
  have r: "r < length (ispotwY G)" using True assms(2) by (simp add: grid_wf_def r_def)
  from assms(1) have sh: "enclosementall G' = enclosementall G" "mem0_all G' = mem0_all G"
    "mem1_all G' = mem1_all G" and all: "list_all2 row_le (ispotwY G) (ispotwY G')"
    by (simp_all add: grid_le_def)
  from all r have rl: "row_le (ispotwY G ! r) (ispotwY G' ! r)" by (simp add: list_all2_nthD)
  show ?thesis
  proof (cases "ispotwY G ! r")
    case None
    then have "ispotwY G' ! r = None" using rl by (cases "ispotwY G' ! r") auto
    then show ?thesis using None True sh by (simp add: GET32_MY_def r_def word_le_refl)
  next
    case (Some ws)
    then obtain ws' where ws': "ispotwY G' ! r = Some ws'" "list_all2 word_le ws ws'"
      using rl by (cases "ispotwY G' ! r") auto
    show ?thesis
    proof (cases "mem0_all G \<le> m \<and> m \<le> mem1_all G")
      case False
      then show ?thesis using Some ws' True sh by (auto simp: GET32_MY_def r_def word_le_refl)
    next
      case M: True
      have "nat (m - mem0_all G) < length ws"
        using grid_wf_row(2) [OF assms(2) _ _ _ _ _, of y ws m] True M Some by (simp add: r_def)
      then have "word_le (ws ! nat (m - mem0_all G)) (ws' ! nat (m - mem0_all G))"
        using ws'(2) by (simp add: list_all2_nthD)
      then show ?thesis using Some ws' True M sh by (simp add: GET32_MY_def r_def)
    qed
  qed
qed

lemma CELLCOLOR_XY_bit:
  "CELLCOLOR_XY G x y = SQUARE_POTW \<longleftrightarrow>
     \<not> (sx0 (enclosementall G) \<le> x \<and> x \<le> sx1 (enclosementall G) \<and>
        sy0 (enclosementall G) \<le> y \<and> y \<le> sy1 (enclosementall G)) \<or>
     bit (GET32_MY G (x div 2 ^ SHIFTPERDDBYTE) y) (nat (c_rem x (2 ^ SHIFTPERDDBYTE)))"
  by (simp add: CELLCOLOR_XY_def Let_def tmpf_potw drop_bit_bit0)

lemma CELLCOLOR_XY_mono:
  assumes "grid_le G G'" "grid_wf G" "CELLCOLOR_XY G x y = SQUARE_POTW"
  shows "CELLCOLOR_XY G' x y = SQUARE_POTW"
proof -
  from assms(1) have sh: "enclosementall G' = enclosementall G" by (simp add: grid_le_def)
  note le = GET32_MY_mono [OF assms(1,2), of "x div 2 ^ SHIFTPERDDBYTE" y]
  show ?thesis using assms(3) le unfolding CELLCOLOR_XY_bit sh word_le_def by blast
qed



subsection \<open>The first loop over the periodic points\<close>

lemma foldE_append:
  "foldE f (xs @ ys) s = (case foldE f xs s of Inl e \<Rightarrow> Inl e | Inr s' \<Rightarrow> foldE f ys s')"
  by (induction xs arbitrary: s) (auto split: sum.splits)

lemma point_rect_pp: "pp p = pp q \<Longrightarrow> point_rect g S p = point_rect g S q"
  by (simp add: point_rect_def)

lemma ranged_nth: "n < length cyc \<Longrightarrow> ranged g S n cyc ! n = cyc ! n"
  by (simp add: ranged_def nth_append)

lemma ranged_length: "length (ranged g S n cyc) = length cyc"
  by (simp add: ranged_def)

lemma ranged_Suc:
  assumes "n < length cyc"
  shows "(ranged g S n cyc)[n := set_ranges g S (cyc ! n)] = ranged g S (Suc n) cyc"
proof (rule nth_equalityI)
  show "length ((ranged g S n cyc)[n := set_ranges g S (cyc ! n)]) = length (ranged g S (Suc n) cyc)"
    by (simp add: ranged_length)
next
  fix i assume "i < length ((ranged g S n cyc)[n := set_ranges g S (cyc ! n)])"
  then have i: "i < length cyc" by (simp add: ranged_length)
  consider "i < n" | "i = n" | "n < i" by linarith
  then show "(ranged g S n cyc)[n := set_ranges g S (cyc ! n)] ! i = ranged g S (Suc n) cyc ! i"
  proof cases
    case 1
    then show ?thesis using i assms by (simp add: ranged_def nth_append)
  next
    case 2
    then show ?thesis using i assms by (simp add: ranged_def nth_append ranged_length)
  next
    case 3
    then show ?thesis using i assms by (simp add: ranged_def nth_append min_def)
  qed
qed

lemma enclose_point_step:
  assumes "n < length cyc"
  shows "enclose_point g S MM (encl, ranged g S n cyc) n =
           (if sx1 (point_rect g S (cyc ! n)) div 2 ^ SHIFTPERDDBYTE \<ge> MM then Inl MaxmemReached
            else Inr (union_rect encl (point_rect g S (cyc ! n)), ranged g S (Suc n) cyc))"
proof -
  let ?c = "ranged g S n cyc"
  let ?scr = "point_rect g S (cyc ! n)"
  have n: "n < length ?c" using assms by (simp add: ranged_length)
  have nth: "?c ! n = cyc ! n" using assms by (rule ranged_nth)
  have upd: "?c[n := (cyc ! n)\<lparr> mem0 := sx0 ?scr div 2 ^ SHIFTPERDDBYTE,
                                   mem1 := sx1 ?scr div 2 ^ SHIFTPERDDBYTE,
                                   py0 := sy0 ?scr, py1 := sy1 ?scr \<rparr>] = ranged g S (Suc n) cyc"
    using ranged_Suc [OF assms, of g S] by (simp add: set_ranges_def)
  show ?thesis
    unfolding enclose_point_def prod.case nth
    using n upd by (simp add: Let_def union_rect_def)
qed

lemma enclose_loop:
  assumes "n \<le> length cyc"
  shows "foldE (enclose_point g S MM) [0..<n] (encl0, cyc) =
           (if \<forall>k<n. sx1 (point_rect g S (cyc ! k)) div 2 ^ SHIFTPERDDBYTE < MM
            then Inr (foldl union_rect encl0 (map (point_rect g S) (take n cyc)), ranged g S n cyc)
            else Inl MaxmemReached)"
  using assms
proof (induction n)
  case 0
  then show ?case by (simp add: ranged_def)
next
  case (Suc n)
  then have n: "n < length cyc" by simp
  have tk: "take (Suc n) cyc = take n cyc @ [cyc ! n]" using n by (simp add: take_Suc_conv_app_nth)
  have up: "[0..<Suc n] = [0..<n] @ [n]" by simp
  show ?case
  proof (cases "\<forall>k<n. sx1 (point_rect g S (cyc ! k)) div 2 ^ SHIFTPERDDBYTE < MM")
    case False
    then have no: "\<not> (\<forall>k<Suc n. sx1 (point_rect g S (cyc ! k)) div 2 ^ SHIFTPERDDBYTE < MM)"
      using less_Suc_eq by blast
    have ih: "foldE (enclose_point g S MM) [0..<n] (encl0, cyc) = Inl MaxmemReached"
      using Suc.IH n False by simp
    have "foldE (enclose_point g S MM) [0..<Suc n] (encl0, cyc) = Inl MaxmemReached"
      unfolding up foldE_append ih by simp
    then show ?thesis using no by simp
  next
    case True
    have ih: "foldE (enclose_point g S MM) [0..<n] (encl0, cyc) =
                Inr (foldl union_rect encl0 (map (point_rect g S) (take n cyc)), ranged g S n cyc)"
      using Suc.IH n True by simp
    have all: "(\<forall>k<Suc n. sx1 (point_rect g S (cyc ! k)) div 2 ^ SHIFTPERDDBYTE < MM)
                 \<longleftrightarrow> sx1 (point_rect g S (cyc ! n)) div 2 ^ SHIFTPERDDBYTE < MM"
      using True less_Suc_eq by auto
    have "foldE (enclose_point g S MM) [0..<Suc n] (encl0, cyc) =
            enclose_point g S MM
              (foldl union_rect encl0 (map (point_rect g S) (take n cyc)), ranged g S n cyc) n"
      unfolding up foldE_append ih by (simp split: sum.splits)
    then show ?thesis
      unfolding all using enclose_point_step [OF n, of g S MM] tk by simp
  qed
qed



subsection \<open>The grid that the set-up of a level builds\<close>

lemma foldE_inv:
  assumes "foldE f xs s = Inr s'" "P s"
    and "\<And>s x s'. x \<in> set xs \<Longrightarrow> P s \<Longrightarrow> f s x = Inr s' \<Longrightarrow> P s'"
  shows "P s'"
  using assms
proof (induction xs arbitrary: s)
  case Nil
  then show ?case by simp
next
  case (Cons x xs)
  from Cons.prems(1) obtain s1 where s1: "f s x = Inr s1" "foldE f xs s1 = Inr s'"
    by (auto split: sum.splits)
  have "P s1" by (rule Cons.prems(3) [of x s s1]) (simp_all add: Cons.prems(2) s1(1))
  have "\<And>s x' s'. x' \<in> set xs \<Longrightarrow> P s \<Longrightarrow> f s x' = Inr s' \<Longrightarrow> P s'"
    using Cons.prems(3) by (meson list.set_intros(2))
  then show ?case using Cons.IH [OF s1(2) \<open>P s1\<close>] by blast
qed

lemma SET32_MY_wf:
  assumes "SET32_MY G m y v = Inr G'"
  shows "same_shape G G'" and "grid_wf G \<Longrightarrow> grid_wf G'"
proof -
  from assms obtain ws where ws: "ispotwY G ! nat (y - sy0 (enclosementall G)) = Some ws"
    and cond: "mem0_all G \<le> m" "m \<le> mem1_all G" "sy0 (enclosementall G) \<le> y"
      "y \<le> sy1 (enclosementall G)"
    and G': "G' = G\<lparr> ispotwY := (ispotwY G)[nat (y - sy0 (enclosementall G)) :=
                                      Some (ws[nat (m - mem0_all G) := v])] \<rparr>"
    by (auto simp: SET32_MY_def split: if_splits option.splits)
  show "same_shape G G'" by (simp add: G' same_shape_def)
  assume w: "grid_wf G"
  have "Some ws \<in> set (ispotwY G)"
    using grid_wf_row(1) [OF w cond(3,4) ws cond(1,2)] ws nth_mem by metis
  then have lw: "length ws = nat (mem1_all G - mem0_all G + 1)" using w by (simp add: grid_wf_def)
  have "set ((ispotwY G)[nat (y - sy0 (enclosementall G)) := Some (ws[nat (m - mem0_all G) := v])])
          \<subseteq> insert (Some (ws[nat (m - mem0_all G) := v])) (set (ispotwY G))"
    by (rule set_update_subset_insert)
  then show "grid_wf G'" using w lw by (auto simp: grid_wf_def G')
qed

lemma wf_shape_SET32:
  assumes "wf_shape G G1" "SET32_MY G1 m y v = Inr G2"
  shows "wf_shape G G2"
  using assms SET32_MY_wf [OF assms(2)] by (auto simp: wf_shape_def same_shape_def)

lemma wf_shape_words:
  assumes "foldE (\<lambda>G m. SET32_MY G m y v) ms G1 = Inr G2" "wf_shape G G1"
  shows "wf_shape G G2"
  using assms
proof (rule foldE_inv [where P = "wf_shape G"])
  fix s m s' assume "wf_shape G s" "SET32_MY s m y v = Inr s'"
  then show "wf_shape G s'" by (rule wf_shape_SET32)
qed

lemma wf_shape_rows:
  assumes "foldE (\<lambda>G y. foldE (\<lambda>G m. SET32_MY G m y v) ms G) ys G1 = Inr G2" "wf_shape G G1"
  shows "wf_shape G G2"
  using assms
proof (rule foldE_inv [where P = "wf_shape G"])
  fix s y s' assume "wf_shape G s" "foldE (\<lambda>G m. SET32_MY G m y v) ms s = Inr s'"
  then show "wf_shape G s'" using wf_shape_words by blast
qed

lemma stamp_cycle_wf:
  assumes "stamp_cycle G cyc n = Inr G'" "grid_wf G"
  shows "same_shape G G'" and "grid_wf G'"
proof -
  have start: "wf_shape G G" using assms(2) by (simp add: wf_shape_def same_shape_def)
  have "wf_shape G G'"
    using assms(1) start unfolding stamp_cycle_def
  proof (rule foldE_inv [where P = "wf_shape G"])
    fix s k s'
    assume "wf_shape G s"
      "foldE (\<lambda>G y. foldE (\<lambda>G m. SET32_MY G m y ALL32GRAY) [mem0 (cyc ! k)..mem1 (cyc ! k)] G)
         [py0 (cyc ! k)..py1 (cyc ! k)] s = Inr s'"
    then show "wf_shape G s'" using wf_shape_rows by blast
  qed
  then show "same_shape G G'" and "grid_wf G'" by (simp_all add: wf_shape_def)
qed

lemma alloc_rows_ok:
  assumes "foldE (alloc_row yw LX sw) ys (mgr, replicate ny None) = Inr (mgr', rows)"
  shows "length rows = ny" and "\<forall>ws. Some ws \<in> set rows \<longrightarrow> length ws = nat LX"
proof -
  have "rows_ok ny (nat LX) (mgr', rows)"
    using assms
  proof (rule foldE_inv [where P = "rows_ok ny (nat LX)"])
    show "rows_ok ny (nat LX) (mgr, replicate ny None)" by (simp add: rows_ok_def)
  next
    fix s :: "ArrayDDByteManager \<times> DDBYTE list option list" and y s'
    assume ok: "rows_ok ny (nat LX) s" and st: "alloc_row yw LX sw s y = Inr s'"
    obtain m r where s: "s = (m, r)" by (cases s)
    from st s obtain m' v where s': "s' = (m', r[y := v])"
      and v: "v = None \<or> v = Some (replicate (nat LX) sw)"
      by (auto simp: alloc_row_def split: if_splits sum.splits)
    have "set (r[y := v]) \<subseteq> insert v (set r)" by (rule set_update_subset_insert)
    then show "rows_ok ny (nat LX) s'" using ok v unfolding s s' rows_ok_def by auto
  qed
  then show "length rows = ny" and "\<forall>ws. Some ws \<in> set rows \<longrightarrow> length ws = nat LX"
    by (simp_all add: rows_ok_def)
qed

lemma mark_rows_length: "length (mark_rows encl cyc n yw) = length yw"
proof -
  have inner: "\<And>ys yw. length (foldl (\<lambda>yw y. yw[nat (y - sy0 encl) := True]) yw ys) = length yw"
  proof -
    fix ys :: "int list" and yw :: "bool list"
    show "length (foldl (\<lambda>yw y. yw[nat (y - sy0 encl) := True]) yw ys) = length yw"
      by (induction ys arbitrary: yw) simp_all
  qed
  have "\<And>ks yw. length (foldl (\<lambda>yw k. foldl (\<lambda>yw y. yw[nat (y - sy0 encl) := True]) yw
                       [py0 (cyc ! k)..py1 (cyc ! k)]) yw ks) = length yw"
  proof -
    fix ks :: "nat list" and yw :: "bool list"
    show "length (foldl (\<lambda>yw k. foldl (\<lambda>yw y. yw[nat (y - sy0 encl) := True]) yw
                       [py0 (cyc ! k)..py1 (cyc ! k)]) yw ks) = length yw"
      by (induction ks arbitrary: yw) (simp_all add: inner)
  qed
  then show ?thesis by (simp add: mark_rows_def)
qed



lemma level_scales_sel:
  "COMPLETE0 (level_scales g L) = COMPLETE0 g" "COMPLETE1 (level_scales g L) = COMPLETE1 g"
  "ENCLOSEMENTWIDTH (level_scales g L) = ENCLOSEMENTWIDTH g"
  "scaleRangePerPixel (level_scales g L) = (COMPLETE1 g - COMPLETE0 g) / real_of_int (2 ^ nat L)"
  "scalePixelPerRange (level_scales g L) = real_of_int (2 ^ nat L) / (COMPLETE1 g - COMPLETE0 g)"
  by (simp_all add: level_scales_def Let_def)

lemma level_scales_idem: "level_encl (level_scales g L) L r = level_encl g L r"
  by (simp add: level_encl_def level_scales_def Let_def)

lemma level_setup_Inr:
  assumes ls: "level_setup g sw L oc mgr = Inr (g', oc', mgr', G0)"
    and n: "nat (cyclelen oc) \<le> length (cycle oc)"
  shows "enclosementall G0 = level_encl g L oc"
    and "mem0_all G0 = sx0 (level_encl g L oc) div 2 ^ SHIFTPERDDBYTE"
    and "mem1_all G0 = sx1 (level_encl g L oc) div 2 ^ SHIFTPERDDBYTE"
    and "mem1_all G0 < 2 ^ nat L div 2 ^ SHIFTPERDDBYTE"
    and "\<forall>k<nat (cyclelen oc).
           sx1 (point_rect (level_scales g L) (2 ^ nat L) (cycle oc ! k)) div 2 ^ SHIFTPERDDBYTE
             < 2 ^ nat L div 2 ^ SHIFTPERDDBYTE"
    and "g' = (level_scales g L)\<lparr> local_rect := level_local g L oc \<rparr>"
    and "oc' = oc\<lparr> cycle := ranged (level_scales g L) (2 ^ nat L) (nat (cyclelen oc)) (cycle oc),
                        ps_basinrect := level_local g L oc \<rparr>"
    and "grid_wf G0"
proof -
  define S :: int where "S = 2 ^ nat L"
  define g2 where "g2 = level_scales g L"
  define encl where "encl = level_encl g L oc"
  define cyc where "cyc = ranged g2 S (nat (cyclelen oc)) (cycle oc)"
  define loc where "loc = level_local g L oc"
  define m0 where "m0 = sx0 encl div 2 ^ SHIFTPERDDBYTE"
  define m1 where "m1 = sx1 encl div 2 ^ SHIFTPERDDBYTE"
  define LY where "LY = sy1 encl - sy0 encl + 1"
  define yw where "yw = mark_rows encl cyc (nat (cyclelen oc)) (replicate (nat LY) False)"
  have loop: "foldE (enclose_point g2 S (S div 2 ^ SHIFTPERDDBYTE)) [0..<nat (cyclelen oc)]
                (\<lparr> sx0 = S, sx1 = 0, sy0 = S, sy1 = 0 \<rparr>, cycle oc) =
              (if \<forall>k<nat (cyclelen oc).
                    sx1 (point_rect g2 S (cycle oc ! k)) div 2 ^ SHIFTPERDDBYTE < S div 2 ^ SHIFTPERDDBYTE
               then Inr (encl, cyc) else Inl MaxmemReached)"
    unfolding encl_def cyc_def level_encl_def g2_def S_def by (rule enclose_loop [OF n])
  have ls2: "level_setup g sw L oc mgr =
     (case foldE (enclose_point g2 S (S div 2 ^ SHIFTPERDDBYTE)) [0..<nat (cyclelen oc)]
                (\<lparr> sx0 = S, sx1 = 0, sy0 = S, sy1 = 0 \<rparr>, cycle oc) of
           Inl e \<Rightarrow> Inl e
         | Inr (encl, cyc) \<Rightarrow>
             if sx1 encl div 2 ^ SHIFTPERDDBYTE \<ge> S div 2 ^ SHIFTPERDDBYTE then Inl Maxmem2Reached
             else
               case foldE (alloc_row
                        (mark_rows encl cyc (nat (cyclelen oc))
                           (replicate (nat (sy1 encl - sy0 encl + 1)) False))
                        (sx1 encl div 2 ^ SHIFTPERDDBYTE - sx0 encl div 2 ^ SHIFTPERDDBYTE + 1) sw)
                      [0..<nat (sy1 encl - sy0 encl + 1)]
                      (FreeAll mgr, replicate (nat (sy1 encl - sy0 encl + 1)) None) of
                 Inl e \<Rightarrow> Inl e
               | Inr (mgr, rows) \<Rightarrow>
                   (case stamp_cycle
                           \<lparr> enclosementall = encl, mem0_all = sx0 encl div 2 ^ SHIFTPERDDBYTE,
                             mem1_all = sx1 encl div 2 ^ SHIFTPERDDBYTE,
                             ispotwY = rows,
                             ywithgray = mark_rows encl cyc (nat (cyclelen oc))
                               (replicate (nat (sy1 encl - sy0 encl + 1)) False) \<rparr>
                           cyc (nat (cyclelen oc)) of
                      Inl e \<Rightarrow> Inl e
                    | Inr G \<Rightarrow>
                        Inr (g2\<lparr> local_rect :=
                                 \<lparr> rx0 = real_of_int (sx0 encl) * scaleRangePerPixel g2 + COMPLETE0 g2,
                                   rx1 = real_of_int (sx1 encl + 1) * scaleRangePerPixel g2 + COMPLETE0 g2,
                                   ry0 = real_of_int (sy0 encl) * scaleRangePerPixel g2 + COMPLETE0 g2,
                                   ry1 = real_of_int (sy1 encl + 1) * scaleRangePerPixel g2 + COMPLETE0 g2 \<rparr> \<rparr>,
                             oc\<lparr> cycle := cyc, ps_basinrect :=
                                 \<lparr> rx0 = real_of_int (sx0 encl) * scaleRangePerPixel g2 + COMPLETE0 g2,
                                   rx1 = real_of_int (sx1 encl + 1) * scaleRangePerPixel g2 + COMPLETE0 g2,
                                   ry0 = real_of_int (sy0 encl) * scaleRangePerPixel g2 + COMPLETE0 g2,
                                   ry1 = real_of_int (sy1 encl + 1) * scaleRangePerPixel g2 + COMPLETE0 g2 \<rparr> \<rparr>,
                             mgr, G)))"
    unfolding level_setup_def g2_def level_scales_def S_def Let_def
    by (simp split: sum.splits prod.splits)
  have locdef: "loc = \<lparr> rx0 = real_of_int (sx0 encl) * scaleRangePerPixel g2 + COMPLETE0 g2,
                        rx1 = real_of_int (sx1 encl + 1) * scaleRangePerPixel g2 + COMPLETE0 g2,
                        ry0 = real_of_int (sy0 encl) * scaleRangePerPixel g2 + COMPLETE0 g2,
                        ry1 = real_of_int (sy1 encl + 1) * scaleRangePerPixel g2 + COMPLETE0 g2 \<rparr>"
    unfolding loc_def level_local_def Let_def encl_def g2_def
    by (simp add: level_scales_idem level_scales_sel)
  from ls have all: "\<forall>k<nat (cyclelen oc).
        sx1 (point_rect g2 S (cycle oc ! k)) div 2 ^ SHIFTPERDDBYTE < S div 2 ^ SHIFTPERDDBYTE"
    unfolding ls2 loop by (auto split: if_splits)
  from ls all have m1lt: "m1 < S div 2 ^ SHIFTPERDDBYTE"
    unfolding ls2 loop m1_def by (auto split: if_splits)
  from ls all m1lt obtain rows where
    al: "foldE (alloc_row yw (m1 - m0 + 1) sw) [0..<nat LY] (FreeAll mgr, replicate (nat LY) None)
           = Inr (mgr', rows)"
    and st: "stamp_cycle \<lparr> enclosementall = encl, mem0_all = m0, mem1_all = m1, ispotwY = rows,
                           ywithgray = yw \<rparr> cyc (nat (cyclelen oc)) = Inr G0"
    and g': "g' = g2\<lparr> local_rect := loc \<rparr>"
    and r': "oc' = oc\<lparr> cycle := cyc, ps_basinrect := loc \<rparr>"
    unfolding ls2 loop m1_def m0_def LY_def yw_def locdef
    by (auto split: if_splits sum.splits)
  let ?Gi = "\<lparr> enclosementall = encl, mem0_all = m0, mem1_all = m1, ispotwY = rows, ywithgray = yw \<rparr>"
  have wfi: "grid_wf ?Gi"
    using alloc_rows_ok [OF al] by (simp add: grid_wf_def LY_def yw_def mark_rows_length)
  note sc = stamp_cycle_wf [OF st wfi]
  show "enclosementall G0 = level_encl g L oc" using sc(1) by (simp add: same_shape_def encl_def)
  show "mem0_all G0 = sx0 (level_encl g L oc) div 2 ^ SHIFTPERDDBYTE"
    using sc(1) by (simp add: same_shape_def encl_def m0_def)
  show "mem1_all G0 = sx1 (level_encl g L oc) div 2 ^ SHIFTPERDDBYTE"
    using sc(1) by (simp add: same_shape_def encl_def m1_def)
  show "mem1_all G0 < 2 ^ nat L div 2 ^ SHIFTPERDDBYTE"
    using sc(1) m1lt by (simp add: same_shape_def S_def)
  show "\<forall>k<nat (cyclelen oc).
           sx1 (point_rect (level_scales g L) (2 ^ nat L) (cycle oc ! k)) div 2 ^ SHIFTPERDDBYTE
             < 2 ^ nat L div 2 ^ SHIFTPERDDBYTE"
    using all by (simp add: g2_def S_def)
  show "g' = (level_scales g L)\<lparr> local_rect := level_local g L oc \<rparr>"
    using g' by (simp add: g2_def loc_def)
  show "oc' = oc\<lparr> cycle := ranged (level_scales g L) (2 ^ nat L) (nat (cyclelen oc)) (cycle oc),
                        ps_basinrect := level_local g L oc \<rparr>"
    using r' by (simp add: cyc_def g2_def S_def loc_def)
  show "grid_wf G0" by (rule sc(2))
qed

section \<open>The bits of a grid are finitely many\<close>


lemma potw_bits_box:
  assumes "grid_wf G"
  shows "potw_bits G \<subseteq> {..<nat (sy1 (enclosementall G) - sy0 (enclosementall G) + 1)}
           \<times> {..<nat (mem1_all G - mem0_all G + 1)} \<times> {..<32}"
proof
  fix c assume c: "c \<in> potw_bits G"
  obtain r j b where cc: "c = (r, j, b)" by (cases c)
  from c cc obtain ws where ws: "r < length (ispotwY G)" "ispotwY G ! r = Some ws"
    "j < length ws" "b < 32"
    by (auto simp: potw_bits_def)
  have "Some ws \<in> set (ispotwY G)" using ws(1,2) nth_mem by metis
  then have "length ws = nat (mem1_all G - mem0_all G + 1)" using assms by (simp add: grid_wf_def)
  then show "c \<in> {..<nat (sy1 (enclosementall G) - sy0 (enclosementall G) + 1)}
           \<times> {..<nat (mem1_all G - mem0_all G + 1)} \<times> {..<32}"
    using ws assms cc by (simp add: grid_wf_def)
qed

lemma potw_bits_card:
  assumes "grid_wf G"
  shows "finite (potw_bits G)"
    and "card (potw_bits G) \<le> 32 * nat (mem1_all G - mem0_all G + 1)
           * nat (sy1 (enclosementall G) - sy0 (enclosementall G) + 1)"
proof -
  let ?B = "{..<nat (sy1 (enclosementall G) - sy0 (enclosementall G) + 1)}
           \<times> {..<nat (mem1_all G - mem0_all G + 1)} \<times> {..<32::nat}"
  have fin: "finite ?B" by simp
  show "finite (potw_bits G)" using potw_bits_box [OF assms] fin by (rule finite_subset)
  have "card (potw_bits G) \<le> card ?B" using potw_bits_box [OF assms] fin by (intro card_mono)
  also have "card ?B = 32 * nat (mem1_all G - mem0_all G + 1)
           * nat (sy1 (enclosementall G) - sy0 (enclosementall G) + 1)"
    by (simp add: card_cartesian_product)
  finally show "card (potw_bits G) \<le> 32 * nat (mem1_all G - mem0_all G + 1)
           * nat (sy1 (enclosementall G) - sy0 (enclosementall G) + 1)" .
qed

lemma grid_le_shape:
  assumes "grid_le G G'"
  shows "enclosementall G' = enclosementall G" "mem0_all G' = mem0_all G" "mem1_all G' = mem1_all G"
  using assms by (simp_all add: grid_le_def)

section \<open>Evaluation of the run\<close>


text \<open>
  The run is evaluated by rewriting. A \<open>let\<close> is unfolded once its bound value is a
  literal, so that the value is computed once.
\<close>

lemma Let_vals:
  "\<And>f. Let (numeral a / numeral b :: real) f = f (numeral a / numeral b)"
  "\<And>f. Let (- (numeral a / numeral b) :: real) f = f (- (numeral a / numeral b))"
  "\<And>f. Let (1 / numeral b :: real) f = f (1 / numeral b)"
  "\<And>f. Let (- (1 / numeral b) :: real) f = f (- (1 / numeral b))"
  "\<And>f. Let \<lparr> rx0 = r1, rx1 = r2, ry0 = r3, ry1 = r4 \<rparr> f = f \<lparr> rx0 = r1, rx1 = r2, ry0 = r3, ry1 = r4 \<rparr>"
  "\<And>f. Let \<lparr> sx0 = i1, sx1 = i2, sy0 = i3, sy1 = i4 \<rparr> f = f \<lparr> sx0 = i1, sx1 = i2, sy0 = i3, sy1 = i4 \<rparr>"
  by (simp_all add: Let_def)

lemma upt_vals:
  "[0..<1] = [0]" "[0..<2] = [0, 1]" "[0..<3] = [0, 1, 2]"
  "[0..<32] = [0, 1, 2, 3, 4, 5, 6, 7, 8, 9, 10, 11, 12, 13, 14, 15, 16, 17, 18, 19, 20, 21, 22,
               23, 24, 25, 26, 27, 28, 29, 30, 31]"
  by (simp_all add: upt_rec)

lemma replicate_vals:
  "replicate 2 x = [x, x]" "replicate 3 x = [x, x, x]"
  "replicate 8 x = [x, x, x, x, x, x, x, x]"
  by (simp_all add: eval_nat_numeral)

lemma level_setup_c0:
  "level_setup globals_z2c_c0 ALL32POTW 8 (root_c0\<lparr> interiorfound := 0 \<rparr>) ArrayDDByteManager_init
     = Inr (g8, root8, mgr8, G8_primed)"
  by (simp add: level_setup_def Let_def globals_z2c_c0_def root_c0_def g8_def root8_def mgr8_def
      G8_primed_def SHIFTPERDDBYTE_def enclose_point_def point_rect_def scrcoord_as_lowerleft_def
      TRIM_def new_PeriodicPoint_def mark_rows_def alloc_row_def getMemory_def FreeAll_def
      ArrayDDByteManager_init_def MAXPTR_def CHUNKSIZE_def stamp_cycle_def SET32_MY_def
      ALL32POTW_def DDBYTEMAX_def ALL32GRAY_def FUNC_Z2C_def upt_vals replicate_vals)

lemma g8_sel:
  "FUNC g8 = 0" "seedC0re g8 = 0" "seedC1re g8 = 0" "seedC0im g8 = 0" "seedC1im g8 = 0"
  "scaleRangePerPixel g8 = 1 / 64" "scalePixelPerRange g8 = 64" "COMPLETE0 g8 = - 2"
  "COMPLETE1 g8 = 2" "local_rect g8 = \<lparr> rx0 = - (1 / 64), rx1 = 1 / 32, ry0 = - (1 / 64), ry1 = 1 / 32 \<rparr>"
  by (simp_all add: g8_def globals_z2c_c0_def FUNC_Z2C_def)

lemmas sweep_eval =
  sweep_def row_body_def word_body_def bit_body_def g8_sel getBoundingBoxfA_def
  getBoundingBoxfA_z2c_def FUNC_Z2C_def FUNC_Z2AZC_def FUNC_Z3AZC_def FUNC_Z4AZC_def
  FUNC_Z5AZC_def FUNC_Z6AZC_def SQUARE_POTW_def SQUARE_LIES_ENTIRELY_IN_LOCAL_def
  SQUARE_LIES_ENTIRELY_IN_COMPLETE_def minimumD_def maximumD_def minimumD4_def maximumD4_def
  scrcoord_as_lowerleft_def hits_potw_def CELLCOLOR_XY_def GET32_MY_def SET32_MY_def
  SHIFTPERDDBYTE_def c_rem_def ALL32POTW_def DDBYTEMAX_def Let_vals upt_vals

lemma sweep_c0_1: "sweep g8 G8_primed = Inr (G8_final, True)"
  unfolding G8_primed_def G8_final_def
  by (simp add: sweep_eval cong: let_weak_cong prod.case_cong_weak)

lemma sweep_c0_2: "sweep g8 G8_final = Inr (G8_final, False)"
  unfolding G8_final_def
  by (simp add: sweep_eval cong: let_weak_cong prod.case_cong_weak)


lemma propagate_c0: "propagate g8 G8_primed = Some (Inr G8_final)"
proof -
  have "propagate g8 G8_final = Some (Inr G8_final)"
    by (subst propagate.simps) (simp add: sweep_c0_2)
  then show ?thesis
    by (subst propagate.simps) (simp add: sweep_c0_1)
qed

lemma gray_present_c0: "gray_present G8_final 3 2"
  by (simp add: gray_present_def G8_final_def upt_vals ALL32POTW_def DDBYTEMAX_def)

lemma cm_level_c0:
  "cm_level ALL32POTW 8 (globals_z2c_c0, root_c0\<lparr> interiorfound := 0 \<rparr>, ArrayDDByteManager_init)
     = Some (Inr (g8, root8, mgr8, 8))"
proof -
  have sel: "sy1 (enclosementall G8_final) - sy0 (enclosementall G8_final) + 1 = 3"
    "mem1_all G8_final - mem0_all G8_final + 1 = 2"
    by (simp_all add: G8_final_def)
  show ?thesis
    by (simp add: cm_level_def level_setup_c0 propagate_c0 sel gray_present_c0)
qed

lemma cm_local_c0:
  "cm_local globals_z2c_c0 root_c0 ALL32POTW = Some (Inr (8, root8\<lparr> interiorfound := 8 \<rparr>))"
proof -
  have lv: "[LEVEL0 globals_z2c_c0..LEVEL1 globals_z2c_c0] = [8]"
    by (simp add: globals_z2c_c0_def upto.simps)
  show ?thesis
    by (simp add: cm_local_def lv cm_level_c0)
qed


lemma grid_wf_G8_primed: "grid_wf G8_primed"
  by (auto simp add: grid_wf_def G8_primed_def)


lemma word_2097151: "(2097151 :: 32 word) = mask 21"
  by (simp add: mask_eq_exp_minus_1)

lemma first_word_flips:
  "(\<lambda>b. (0::nat, 0::nat, b)) ` {..<10} \<subseteq> potw_bits G8_final - potw_bits G8_primed"
  by (auto simp add: potw_bits_def G8_final_def G8_primed_def word_2097151 bit_mask_iff)

lemma grid_wf_G8_final: "grid_wf G8_final"
  by (auto simp add: grid_wf_def G8_final_def)

lemma flips_c0: "10 \<le> card (potw_bits G8_final - potw_bits G8_primed)"
proof -
  have "card ((\<lambda>b. (0::nat, 0::nat, b)) ` {..<10::nat}) = 10"
    by (subst card_image) (auto simp add: inj_on_def)
  moreover have "card ((\<lambda>b. (0::nat, 0::nat, b)) ` {..<10::nat})
      \<le> card (potw_bits G8_final - potw_bits G8_primed)"
    using first_word_flips potw_bits_card(1) [OF grid_wf_G8_final] by (intro card_mono) auto
  ultimately show ?thesis by simp
qed

section \<open>What a level writes to the root\<close>


lemma set_ranges_pp: "pp (set_ranges g S p) = pp p"
  by (simp add: set_ranges_def)

lemma ranged_pp: "map pp (ranged g S n cyc) = map pp cyc"
proof -
  have "map pp (ranged g S n cyc) = map pp (take n cyc) @ map pp (drop n cyc)"
    by (simp add: ranged_def set_ranges_pp comp_def)
  also have "\<dots> = map pp cyc" by (simp flip: map_append)
  finally show ?thesis .
qed

lemma ranged_drop: "n \<le> length cyc \<Longrightarrow> drop n (ranged g S n cyc) = drop n cyc"
  by (simp add: ranged_def)

lemma cm_level_root:
  assumes "cm_level sw L (g, oc, mgr) = Some (Inr (g', oc', mgr', ip))"
    and "nat (cyclelen oc) \<le> length (cycle oc)"
  shows "oc' = oc\<lparr> cycle := ranged (level_scales g L) (2 ^ nat L) (nat (cyclelen oc)) (cycle oc),
                    ps_basinrect := level_local g L oc \<rparr>"
proof -
  from assms(1) obtain mgr0 G0 where "level_setup g sw L oc mgr = Inr (g', oc', mgr0, G0)"
    by (auto simp add: cm_level_def Let_def split: sum.splits option.splits)
  then show ?thesis using level_setup_Inr(7) assms(2) by blast
qed

lemma level_loop_frame:
  assumes "level_loop sw Ls (g, oc, mgr, ip) = Some (Inr (g', oc', mgr', ip'))"
    and "nat (cyclelen oc) \<le> length (cycle oc)"
  shows "attractor oc' = attractor oc \<and> multiplier oc' = multiplier oc \<and>
         cyclelen oc' = cyclelen oc \<and> cyclenumber oc' = cyclenumber oc \<and>
         length (cycle oc') = length (cycle oc) \<and> map pp (cycle oc') = map pp (cycle oc) \<and>
         drop (nat (cyclelen oc)) (cycle oc') = drop (nat (cyclelen oc)) (cycle oc)"
  using assms
proof (induction Ls arbitrary: g oc mgr ip)
  case Nil
  then show ?case by simp
next
  case (Cons L Ls)
  from Cons.prems(1) obtain g1 oc1 mgr1 ip1
    where st: "cm_level sw L (g, oc, mgr) = Some (Inr (g1, oc1, mgr1, ip1))"
      and rest: "(0 < ip1 \<and> oc' = oc1) \<or>
                 level_loop sw Ls (g1, oc1, mgr1, ip1) = Some (Inr (g', oc', mgr', ip'))"
    by (auto split: option.splits sum.splits if_splits)
  have oc1: "oc1 = oc\<lparr> cycle := ranged (level_scales g L) (2 ^ nat L) (nat (cyclelen oc)) (cycle oc),
                        ps_basinrect := level_local g L oc \<rparr>"
    by (rule cm_level_root [OF st Cons.prems(2)])
  have f1: "attractor oc1 = attractor oc \<and> multiplier oc1 = multiplier oc \<and>
         cyclelen oc1 = cyclelen oc \<and> cyclenumber oc1 = cyclenumber oc \<and>
         length (cycle oc1) = length (cycle oc) \<and> map pp (cycle oc1) = map pp (cycle oc) \<and>
         drop (nat (cyclelen oc)) (cycle oc1) = drop (nat (cyclelen oc)) (cycle oc)"
    using Cons.prems(2) by (simp add: oc1 ranged_length ranged_pp ranged_drop)
  from rest show ?case
  proof
    assume "0 < ip1 \<and> oc' = oc1"
    then show ?thesis using f1 by simp
  next
    assume r: "level_loop sw Ls (g1, oc1, mgr1, ip1) = Some (Inr (g', oc', mgr', ip'))"
    have n1: "nat (cyclelen oc1) \<le> length (cycle oc1)" using f1 Cons.prems(2) by simp
    from Cons.IH [OF r n1] f1 show ?thesis by simp
  qed
qed

section \<open>The rectangles of a level lie in the screen\<close>


lemma TRIM_bounds: "0 < S \<Longrightarrow> 0 \<le> TRIM S w" "0 < S \<Longrightarrow> TRIM S w < S"
  by (simp_all add: TRIM_def)

lemma point_rect_in_screen: "0 < S \<Longrightarrow> in_screen S (point_rect g S p)"
  by (simp add: in_screen_def point_rect_def Let_def TRIM_bounds)

lemma union_rect_in_screen:
  "in_screen S e \<Longrightarrow> in_screen S r \<Longrightarrow> in_screen S (union_rect e r)"
  by (simp add: in_screen_def union_rect_def Let_def)

lemma union_rect_first:
  "in_screen S r \<Longrightarrow> in_screen S (union_rect \<lparr> sx0 = S, sx1 = 0, sy0 = S, sy1 = 0 \<rparr> r)"
  by (simp add: in_screen_def union_rect_def Let_def)

lemma foldl_union_in_screen:
  "in_screen S e \<Longrightarrow> \<forall>r\<in>set rs. in_screen S r \<Longrightarrow> in_screen S (foldl union_rect e rs)"
  by (induction rs arbitrary: e) (simp_all add: union_rect_in_screen)

lemma level_encl_in_screen:
  assumes "1 \<le> cyclelen oc" and "nat (cyclelen oc) \<le> length (cycle oc)"
  shows "in_screen (2 ^ nat L) (level_encl g L oc)"
proof -
  define rs where "rs = map (point_rect (level_scales g L) (2 ^ nat L))
          (take (nat (cyclelen oc)) (cycle oc))"
  have all: "\<forall>r\<in>set rs. in_screen (2 ^ nat L) r"
    by (auto simp add: rs_def point_rect_in_screen)
  have "length rs = nat (cyclelen oc)" using assms(2) by (simp add: rs_def)
  then have "rs \<noteq> []" using assms(1) by auto
  then obtain r rs' where rs: "rs = r # rs'" by (cases rs) auto
  have "in_screen (2 ^ nat L) (foldl union_rect
      (union_rect \<lparr> sx0 = 2 ^ nat L, sx1 = 0, sy0 = 2 ^ nat L, sy1 = 0 \<rparr> r) rs')"
    using all rs by (intro foldl_union_in_screen union_rect_first) simp_all
  then show ?thesis by (simp add: level_encl_def flip: rs_def add: rs)
qed

lemma ranged_nth_less:
  "k < n \<Longrightarrow> n \<le> length cyc \<Longrightarrow> ranged g S n cyc ! k = set_ranges g S (cyc ! k)"
  by (simp add: ranged_def nth_append)

lemma point_rect_local: "point_rect (g\<lparr> local_rect := r \<rparr>) S p = point_rect g S p"
  by (simp add: point_rect_def scrcoord_as_lowerleft_def)

lemma set_ranges_local: "set_ranges (g\<lparr> local_rect := r \<rparr>) S p = set_ranges g S p"
  by (simp add: set_ranges_def point_rect_local)

lemma CELLCOLOR_XY_outside:
  "\<not> in_enclosement G x y \<Longrightarrow> CELLCOLOR_XY (G\<lparr> ispotwY := rows \<rparr>) x y = SQUARE_POTW"
  by (auto simp add: CELLCOLOR_XY_def in_enclosement_def)

lemma word_range_in_screen:
  fixes S m1 :: int
  assumes "m1 < S div 2 ^ SHIFTPERDDBYTE"
  shows "32 * m1 + 31 \<le> S - 1"
proof -
  have "32 * (S div 32) \<le> S" by simp
  moreover have "m1 + 1 \<le> S div 32" using assms by (simp add: SHIFTPERDDBYTE_def)
  ultimately show ?thesis by linarith
qed

section \<open>The Lagrange bound\<close>

lemma foldl_add_sum:
  fixes h :: "nat \<Rightarrow> real"
  shows "foldl (\<lambda>res i. res + h i) a [0..<n] = a + (\<Sum>i<n. h i)"
  by (induction n) simp_all

lemma norm_c_real: "norm_c (Complex x 0) = \<bar>x\<bar>"
  by (simp add: norm_c_def)

lemma getLagrange_eq:
  "getLagrange log2q g f =
     shift_left_1 \<lceil>log2q (real_of_int
        \<lceil>(1 + (\<Sum>i<nat (grad f + 1). norm_c (coeff (fkt g) ! i)))
            / norm_c (coeff (fkt g) ! nat (grad (fkt g)))\<rceil>)\<rceil>"
  by (simp add: getLagrange_def Let_def foldl_add_sum)

lemma setfunc_z2c_sel:
  assumes "\<not> normQ c < COEFFZEROLIMIT"
  shows "grad (setfunc FUNC_Z2C a c) = 2"
    and "coeff (setfunc FUNC_Z2C a c) ! 0 = c"
    and "coeff (setfunc FUNC_Z2C a c) ! Suc 0 = Complex 0 0"
    and "coeff (setfunc FUNC_Z2C a c) ! 2 = 1"
  using assms
     apply (simp_all add: setfunc_def FUNC_Z2C_def FUNC_Z3AZC_def FUNC_Z4AZC_def
      FUNC_Z5AZC_def FUNC_Z6AZC_def FUNC_Z2AZC_def Let_def empty_Polynom_def clearCoeff_def
      MAXDEGREE_def)
     apply (simp_all add: setCoeff_def Let_def normQ_def COEFFZEROLIMIT_def numeral_eq_Suc
      complex_eq_iff)
  done

lemma shift_left_1_vals:
  "shift_left_1 30 = Some 1073741824" "shift_left_1 31 = Some (- 2147483648)"
  by (simp_all add: shift_left_1_def)

lemma ceiling_between:
  fixes q :: real
  assumes "real_of_int k < q" and "q \<le> real_of_int k + 1"
  shows "\<lceil>q\<rceil> = k + 1"
  using assms by (simp add: ceiling_eq_iff)

lemma log2_1073741826: "30 < log 2 1073741826" "log 2 1073741826 \<le> 31"
proof -
  have p30: "log 2 ((2::real) ^ 30) = 30"
    using log_nat_power [of 2 2 30] by simp
  have p31: "log 2 ((2::real) ^ 31) = 31"
    using log_nat_power [of 2 2 31] by simp
  have "log 2 ((2::real) ^ 30) < log 2 1073741826"
    by (subst log_less_cancel_iff) simp_all
  then show "30 < log 2 1073741826" unfolding p30 .
  have "log 2 1073741826 \<le> log 2 ((2::real) ^ 31)"
    by (subst log_le_cancel_iff) simp_all
  then show "log 2 1073741826 \<le> 31" unfolding p31 .
qed



lemma res_c536870910:
  "\<lceil>(1 + (\<Sum>i<nat (grad (fkt globals_c536870910) + 1).
              norm_c (coeff (fkt globals_c536870910) ! i)))
      / norm_c (coeff (fkt globals_c536870910) ! nat (grad (fkt globals_c536870910)))\<rceil>
   = 536870912"
proof -
  have f: "fkt globals_c536870910 = setfunc FUNC_Z2C (Complex 0 0) (Complex 536870910 0)"
    by (simp add: globals_c536870910_def)
  have nz: "\<not> normQ (Complex 536870910 0) < COEFFZEROLIMIT"
    by (simp add: normQ_def COEFFZEROLIMIT_def)
  have one: "norm_c 1 = 1" by (simp add: norm_c_def)
  show ?thesis
    unfolding f
    by (simp add: setfunc_z2c_sel [OF nz] lessThan_nat_numeral lessThan_Suc norm_c_real one)
qed

lemma res_c1073741824:
  "\<lceil>(1 + (\<Sum>i<nat (grad (fkt globals_c1073741824) + 1).
              norm_c (coeff (fkt globals_c1073741824) ! i)))
      / norm_c (coeff (fkt globals_c1073741824) ! nat (grad (fkt globals_c1073741824)))\<rceil>
   = 1073741826"
proof -
  have f: "fkt globals_c1073741824 = setfunc FUNC_Z2C (Complex 0 0) (Complex 1073741824 0)"
    by (simp add: globals_c1073741824_def)
  have nz: "\<not> normQ (Complex 1073741824 0) < COEFFZEROLIMIT"
    by (simp add: normQ_def COEFFZEROLIMIT_def)
  have one: "norm_c 1 = 1" by (simp add: norm_c_def)
  show ?thesis
    unfolding f
    by (simp add: setfunc_z2c_sel [OF nz] lessThan_nat_numeral lessThan_Suc norm_c_real one)
qed

lemma claimed_c536870910:
  "\<lceil>1 + (\<Sum>i\<le>2. norm_c (coeff (fkt globals_c536870910) ! i))
          / norm_c (coeff (fkt globals_c536870910) ! 2)\<rceil> = 536870912"
proof -
  have f: "fkt globals_c536870910 = setfunc FUNC_Z2C (Complex 0 0) (Complex 536870910 0)"
    by (simp add: globals_c536870910_def)
  have nz: "\<not> normQ (Complex 536870910 0) < COEFFZEROLIMIT"
    by (simp add: normQ_def COEFFZEROLIMIT_def)
  have one: "norm_c 1 = 1" by (simp add: norm_c_def)
  show ?thesis
    unfolding f
    by (simp add: setfunc_z2c_sel [OF nz] atMost_nat_numeral atMost_Suc norm_c_real one)
qed

lemma claimed_c1073741824:
  "\<lceil>1 + (\<Sum>i\<le>2. norm_c (coeff (fkt globals_c1073741824) ! i))
          / norm_c (coeff (fkt globals_c1073741824) ! 2)\<rceil> = 1073741826"
proof -
  have f: "fkt globals_c1073741824 = setfunc FUNC_Z2C (Complex 0 0) (Complex 1073741824 0)"
    by (simp add: globals_c1073741824_def)
  have nz: "\<not> normQ (Complex 1073741824 0) < COEFFZEROLIMIT"
    by (simp add: normQ_def COEFFZEROLIMIT_def)
  have one: "norm_c 1 = 1" by (simp add: norm_c_def)
  show ?thesis
    unfolding f
    by (simp add: setfunc_z2c_sel [OF nz] atMost_nat_numeral atMost_Suc norm_c_real one)
qed

section \<open>The critical point of z^2 + c\<close>


lemma fkt_c0: "fkt globals_z2c_c0 = setfunc FUNC_Z2C (Complex 0 0) (Complex 0 0)"
  by (simp add: globals_z2c_c0_def)

lemma fkt_m2: "fkt globals_z2c_m2 = setfunc FUNC_Z2C (Complex 0 0) (Complex (- 2) 0)"
  by (simp add: globals_z2c_m2_def)

lemma ableiten_z2:
  "grad (ableitenFA (setfunc FUNC_Z2C a c)) = 1"
  "coeff (ableitenFA (setfunc FUNC_Z2C a c)) ! 0 = Complex 0 0"
  "coeff (ableitenFA (setfunc FUNC_Z2C a c)) ! Suc 0 = Complex 2 0"
  "coeffnull (ableitenFA (setfunc FUNC_Z2C a c)) ! Suc 0 = 0"
     apply (simp_all add: ableitenFA_def setfunc_def FUNC_Z2C_def FUNC_Z3AZC_def FUNC_Z4AZC_def
      FUNC_Z5AZC_def FUNC_Z6AZC_def FUNC_Z2AZC_def Let_def empty_Polynom_def clearCoeff_def
      MAXDEGREE_def)
     apply (simp_all add: setCoeff_def Let_def normQ_def COEFFZEROLIMIT_def upto.simps
      numeral_eq_Suc)
  done

lemma ableiten_2z:
  "grad (ableitenFA (ableitenFA (setfunc FUNC_Z2C a c))) = 0"
  "coeff (ableitenFA (ableitenFA (setfunc FUNC_Z2C a c))) ! 0 = Complex 2 0"
   apply (simp_all add: ableitenFA_def [of "ableitenFA x" for x] ableiten_z2 upto.simps)
   apply (simp_all add: setCoeff_def Let_def normQ_def COEFFZEROLIMIT_def empty_Polynom_def
      clearCoeff_def MAXDEGREE_def numeral_eq_Suc complex_eq_iff)
  done

lemma eval_2z:
  "eval_arg_f (ableitenFA (setfunc FUNC_Z2C a c)) z = 2 * z"
  by (simp add: eval_arg_f_def ableiten_z2 complex_eq_iff)

lemma eval_2: "eval_arg_f (ableitenFA (ableitenFA (setfunc FUNC_Z2C a c))) z = 2"
  by (simp add: eval_arg_f_def ableiten_2z complex_eq_iff)

lemma newton_2z:
  assumes "\<not> normQ z < ZEROEPSILON"
  shows "newton_loop (Suc (Suc n)) (ableitenFA (setfunc FUNC_Z2C a c))
     (ableitenFA (ableitenFA (setfunc FUNC_Z2C a c))) 1 z erg = (2, 0)"
  using assms by (simp add: eval_2z eval_2 Let_def normQ_def ZEROEPSILON_def)

lemma newton_z2c:
  assumes "\<not> normQ z < ZEROEPSILON" and "MAXIT g = 25000"
  shows "newton g (ableitenFA (setfunc FUNC_Z2C a c))
     (ableitenFA (ableitenFA (setfunc FUNC_Z2C a c))) z erg = (2, 0)"
proof -
  have "nat (MAXIT g - 1) = Suc (Suc 24997)" using assms(2) by simp
  then show ?thesis unfolding newton_def by (simp only: newton_2z [OF assms(1)])
qed

lemma Complex_0_0: "Complex 0 0 = 0"
  by (simp add: complex_eq_iff)

lemma find_critical_points_c0: "ps_find_critical_points globals_z2c_c0 = Some (Inr zero_cp0)"
  by (simp add: ps_find_critical_points_def Let_def fkt_c0 SUCHE_def SUCHE_if_def
      SUCHE_y.simps [of _ _ _ _ _ _ _ _ _ _ _ 0] SUCHE_x.simps [of _ _ _ _ _ _ _ _ 0]
      c_trunc_def newton_z2c getNullstellenIdx_def ableiten_z2 MAXZEROS_def zero_cp0_def
      normQ_def ZEROEPSILON_def Complex_0_0
      globals_z2c_c0_def [THEN arg_cong, of COMPLETE1] globals_z2c_c0_def [THEN arg_cong, of MAXIT])

lemma find_critical_points_m2: "ps_find_critical_points globals_z2c_m2 = Some (Inr zero_cp0)"
  by (simp add: ps_find_critical_points_def Let_def fkt_m2 SUCHE_def SUCHE_if_def
      SUCHE_y.simps [of _ _ _ _ _ _ _ _ _ _ _ 0] SUCHE_x.simps [of _ _ _ _ _ _ _ _ 0]
      c_trunc_def newton_z2c getNullstellenIdx_def ableiten_z2 MAXZEROS_def zero_cp0_def
      normQ_def ZEROEPSILON_def Complex_0_0 globals_z2c_m2_def [THEN arg_cong, of COMPLETE1]
      globals_z2c_m2_def [THEN arg_cong, of MAXIT]
      globals_z2c_c0_def [THEN arg_cong, of MAXIT])



lemma SUCHE_right_edge:
  "SUCHE g fktforcp ablforcp sk SCRRE0 SCRIM0 1023 1023 1023 0 zero = Some (Inr zero)"
  by (simp add: SUCHE_def SUCHE_y.simps)

lemma SUCHE_bottom_edge:
  "SUCHE g fktforcp ablforcp sk SCRRE0 SCRIM0 1023 0 0 0 zero = Some (Inr zero)"
  by (simp add: SUCHE_def SUCHE_y.simps [of _ _ _ _ _ _ _ _ _ _ _ 0]
      SUCHE_y.simps [of _ _ _ _ _ _ _ _ _ _ _ 1] SUCHE_x.simps)

lemma SUCHE_if_right_edge:
  "SUCHE_if g fktforcp ablforcp sk SCRRE0 SCRIM0 1023 1023 1023 0 r = r"
  by (simp add: SUCHE_if_def SUCHE_right_edge split: option.splits sum.splits)

lemma SUCHE_if_bottom_edge:
  "SUCHE_if g fktforcp ablforcp sk SCRRE0 SCRIM0 1023 0 0 0 r = r"
  by (simp add: SUCHE_if_def SUCHE_bottom_edge split: option.splits sum.splits)

section \<open>The critical orbit of z^2 - 2\<close>


lemma orbit_loop_fixed:
  assumes "eval_arg_f f z = z" and "\<not> normQ z > E"
  shows "orbit_loop n f E z acc = (acc @ replicate n z, False)"
  using assms
proof (induction n arbitrary: acc)
  case 0
  then show ?case by simp
next
  case (Suc n)
  have "orbit_loop (Suc n) f E z acc = orbit_loop n f E z (acc @ [z])"
    using Suc.prems by (simp add: Let_def)
  also have "\<dots> = ((acc @ [z]) @ replicate n z, False)" by (rule Suc.IH [OF Suc.prems])
  finally show ?case by (simp add: replicate_app_Cons_same)
qed

lemma eval_m2: "eval_arg_f (fkt globals_z2c_m2) z = z ^ 2 + Complex (- 2) 0"
  by (simp add: fkt_m2 eval_setfunc_z2c FUNC_Z2C_def)

lemma Complex_numeral: "Complex (- 2) 0 = - 2" "Complex 0 0 = 0"
  by (simp_all add: complex_eq_iff)

lemma normQ_vals: "normQ 0 = 0" "normQ (- 2) = 4" "normQ 2 = 4"
  by (simp_all add: normQ_def)

lemma orbit_m2:
  "orbit_loop (Suc (Suc n)) (fkt globals_z2c_m2) 16 0 [] = ([0, - 2] @ replicate n 2, False)"
proof -
  have "orbit_loop (Suc (Suc n)) (fkt globals_z2c_m2) 16 0 [] =
        orbit_loop n (fkt globals_z2c_m2) 16 2 [0, - 2]"
    by (simp add: Let_def eval_m2 Complex_numeral normQ_vals)
  also have "\<dots> = ([0, - 2] @ replicate n 2, False)"
    by (rule orbit_loop_fixed) (simp_all add: eval_m2 Complex_numeral normQ_vals)
  finally show ?thesis .
qed

lemma cyclestart_m2:
  assumes "2 \<le> n"
  shows "find_cyclestart ([0, - 2] @ replicate n 2) (Suc n) = int n"
  using assms by (simp add: nth_append normQ_vals ZEROEPSILON_def)

lemma polyabl_m2: "eval_arg_f (ableitenFA (fkt globals_z2c_m2)) z = 2 * z"
  by (simp add: fkt_m2 eval_2z)

lemma critical_orbit_body_repelling:
  assumes orb: "orbit_loop (nat (MAXIT g)) (fkt g) (COMPLETE1 g * COMPLETE1 g)
                  (attractor (zero ! 0)) [] = (orbit, False)"
    and cs: "find_cyclestart orbit (length orbit - 1) = int (length orbit) - 2"
    and len: "2 \<le> length orbit"
    and mult: "norm_c (eval_arg_f polyabl (orbit ! (length orbit - 1))) > 100001 / 100000"
  shows "critical_orbit_body g polyabl (zero, cnum, rv) 0 =
     (zero[0 := (zero ! 0)\<lparr>
               multiplier := norm_c (eval_arg_f polyabl (orbit ! (length orbit - 1))),
               cyclenumber := cnum, cyclelen := 0, cycle := [], interiorfound := 0 \<rparr>],
      cnum + 1, rv + 1)"
proof -
  have i1: "int (length orbit) - 2 + 1 = int (length orbit) - 1" by simp
  have i3: "nat (int (length orbit) - 1) = length orbit - 1" by simp
  have one: "Complex 1 0 * z = z" for z by (simp add: complex_eq_iff)
  show ?thesis
    unfolding critical_orbit_body_def
    using cs len mult i1 i3 by (simp add: Let_def orb one)
qed


lemma nat_25000: "nat (MAXIT globals_z2c_m2) = Suc (Suc 24998)"
  by (simp add: globals_z2c_m2_def globals_z2c_c0_def)

lemma orbit_m2_run:
  "orbit_loop (nat (MAXIT globals_z2c_m2)) (fkt globals_z2c_m2)
     (COMPLETE1 globals_z2c_m2 * COMPLETE1 globals_z2c_m2) (attractor (zero_cp0 ! 0)) []
   = ([0, - 2] @ replicate 24998 2, False)"
proof -
  have "COMPLETE1 globals_z2c_m2 * COMPLETE1 globals_z2c_m2 = 16"
    by (simp add: globals_z2c_m2_def)
  moreover have "attractor (zero_cp0 ! 0) = 0"
    by (simp add: zero_cp0_def Complex_numeral)
  ultimately show ?thesis unfolding nat_25000 by (simp only: orbit_m2)
qed

lemma orbit_m2_facts:
  fixes n :: nat
  assumes "2 \<le> n"
  shows "length ([0, - 2 :: complex] @ replicate n 2) = Suc (Suc n)"
    and "([0, - 2 :: complex] @ replicate n 2) ! Suc n = 2"
    and "find_cyclestart ([0, - 2] @ replicate n 2) (Suc n) = int n"
  using assms cyclestart_m2 [OF assms] by (simp_all add: nth_append)

lemma body_m2:
  "critical_orbit_body globals_z2c_m2 (ableitenFA (fkt globals_z2c_m2)) (zero_cp0, 1, 0) 0 =
     ([(Root_clear zero_Root)\<lparr> attractor := Complex 0 0, multiplier := 4, cyclenumber := 1 \<rparr>],
      2, 1)"
proof -
  define orbit :: "complex list" where "orbit = [0, - 2] @ replicate 24998 2"
  have n: "(2::nat) \<le> 24998" by simp
  have len: "length orbit = Suc (Suc 24998)" unfolding orbit_def by (rule orbit_m2_facts(1) [OF n])
  have last: "orbit ! (length orbit - 1) = 2"
    unfolding len unfolding orbit_def using orbit_m2_facts(2) [OF n] by simp
  have cs: "find_cyclestart orbit (length orbit - 1) = int (length orbit) - 2"
    unfolding len unfolding orbit_def using orbit_m2_facts(3) [OF n] by simp
  have l2: "2 \<le> length orbit" unfolding len by simp
  have m: "norm_c (eval_arg_f (ableitenFA (fkt globals_z2c_m2)) (orbit ! (length orbit - 1))) = 4"
    unfolding last by (simp add: polyabl_m2 norm_c_def)
  have "critical_orbit_body globals_z2c_m2 (ableitenFA (fkt globals_z2c_m2)) (zero_cp0, 1, 0) 0 =
     (zero_cp0[0 := (zero_cp0 ! 0)\<lparr> multiplier := 4,
               cyclenumber := 1, cyclelen := 0, cycle := [], interiorfound := 0 \<rparr>],
      1 + 1, 0 + 1)"
    using critical_orbit_body_repelling [of globals_z2c_m2 zero_cp0 orbit
        "ableitenFA (fkt globals_z2c_m2)" 1 0, OF orbit_m2_run [folded orbit_def] cs l2]
    unfolding m by simp
  then show ?thesis by (simp add: zero_cp0_def Root_clear_def zero_Root_def)
qed

section \<open>A level does not depend on the levels before it\<close>



subsection \<open>Two runs of a level from states that agree on what the level reads\<close>







lemma same_globals_refl: "same_globals g g"
proof -
  have "g = g\<lparr> scaleRangePerPixel := scaleRangePerPixel g,
               scalePixelPerRange := scalePixelPerRange g, local_rect := local_rect g \<rparr>"
    by simp
  then show ?thesis unfolding same_globals_def by blast
qed

lemma same_globals_level:
  assumes "same_globals g g1"
  shows "(level_scales g1 L)\<lparr> local_rect := r \<rparr> = (level_scales g L)\<lparr> local_rect := r \<rparr>"
    and "same_globals g ((level_scales g1 L)\<lparr> local_rect := r \<rparr>)"
    and "point_rect (level_scales g1 L) S p = point_rect (level_scales g L) S p"
    and "scaleRangePerPixel (level_scales g1 L) = scaleRangePerPixel (level_scales g L)"
    and "COMPLETE0 (level_scales g1 L) = COMPLETE0 (level_scales g L)"
    and "LEVEL0 g1 = LEVEL0 g" and "LEVEL1 g1 = LEVEL1 g"
proof -
  from assms obtain a b r0
    where g1: "g1 = g\<lparr> scaleRangePerPixel := a, scalePixelPerRange := b, local_rect := r0 \<rparr>"
    unfolding same_globals_def by blast
  show 1: "(level_scales g1 L)\<lparr> local_rect := r \<rparr> = (level_scales g L)\<lparr> local_rect := r \<rparr>"
    by (simp add: g1 level_scales_def Let_def)
  show "same_globals g ((level_scales g1 L)\<lparr> local_rect := r \<rparr>)"
    unfolding 1 unfolding same_globals_def level_scales_def Let_def
    by (intro exI) (rule refl)
  show "point_rect (level_scales g1 L) S p = point_rect (level_scales g L) S p"
    by (simp add: g1 level_scales_def Let_def point_rect_def scrcoord_as_lowerleft_def)
  show "scaleRangePerPixel (level_scales g1 L) = scaleRangePerPixel (level_scales g L)"
    by (simp add: g1 level_scales_def Let_def)
  show "COMPLETE0 (level_scales g1 L) = COMPLETE0 (level_scales g L)"
    by (simp add: g1 level_scales_def Let_def)
  show "LEVEL0 g1 = LEVEL0 g" and "LEVEL1 g1 = LEVEL1 g" by (simp_all add: g1)
qed

lemma set_ranges_cong:
  assumes "pp p = pp q" and "point_rect g1 S q = point_rect g S q"
  shows "set_ranges g1 S p = set_ranges g S q"
proof -
  have "point_rect g1 S p = point_rect g S q" using point_rect_pp [OF assms(1)] assms(2) by simp
  moreover have "point_rect g S p = point_rect g S q" by (rule point_rect_pp [OF assms(1)])
  ultimately show ?thesis using assms(1) by (simp add: set_ranges_def)
qed






lemma same_points_level:
  assumes sp: "same_points oc oc1" and sg: "same_globals g g1"
  shows "level_encl g1 L oc1 = level_encl g L oc"
    and "ranged (level_scales g1 L) S (nat (cyclelen oc1)) (cycle oc1)
           = ranged (level_scales g L) S (nat (cyclelen oc)) (cycle oc)"
    and "level_local g1 L oc1 = level_local g L oc"
    and "\<forall>k<nat (cyclelen oc). k < length (cycle oc) \<longrightarrow>
           point_rect (level_scales g1 L) S (cycle oc1 ! k)
             = point_rect (level_scales g L) S (cycle oc ! k)"
proof -
  have len: "cyclelen oc1 = cyclelen oc" "length (cycle oc1) = length (cycle oc)"
    and pps: "map pp (cycle oc1) = map pp (cycle oc)"
    and dr: "drop (nat (cyclelen oc)) (cycle oc1) = drop (nat (cyclelen oc)) (cycle oc)"
    using sp by (simp_all add: same_points_def)
  have ppk: "pp (cycle oc1 ! k) = pp (cycle oc ! k)" if "k < length (cycle oc)" for k
    using that pps len(2) by (metis nth_map)
  have pr: "point_rect (level_scales g1 L) S' (cycle oc1 ! k)
             = point_rect (level_scales g L) S' (cycle oc ! k)" if "k < length (cycle oc)" for k S'
    using point_rect_pp [OF ppk [OF that]] same_globals_level(3) [OF sg] by simp
  show "\<forall>k<nat (cyclelen oc). k < length (cycle oc) \<longrightarrow>
           point_rect (level_scales g1 L) S (cycle oc1 ! k)
             = point_rect (level_scales g L) S (cycle oc ! k)"
    using pr by simp
  have tk: "map (point_rect (level_scales g1 L) S') (take n (cycle oc1))
            = map (point_rect (level_scales g L) S') (take n (cycle oc))" for n S'
    by (rule nth_equalityI) (simp_all add: len pr)
  show e: "level_encl g1 L oc1 = level_encl g L oc"
    by (simp add: level_encl_def len tk)
  have sr: "map (set_ranges (level_scales g1 L) S) (take n (cycle oc1))
            = map (set_ranges (level_scales g L) S) (take n (cycle oc))" for n
  proof (rule nth_equalityI)
    show "length (map (set_ranges (level_scales g1 L) S) (take n (cycle oc1)))
        = length (map (set_ranges (level_scales g L) S) (take n (cycle oc)))"
      by (simp add: len)
  next
    fix i assume "i < length (map (set_ranges (level_scales g1 L) S) (take n (cycle oc1)))"
    then have i: "i < n" "i < length (cycle oc)" by (simp_all add: len)
    have "set_ranges (level_scales g1 L) S (cycle oc1 ! i)
        = set_ranges (level_scales g L) S (cycle oc ! i)"
      by (rule set_ranges_cong [OF ppk [OF i(2)] same_globals_level(3) [OF sg]])
    then show "map (set_ranges (level_scales g1 L) S) (take n (cycle oc1)) ! i
        = map (set_ranges (level_scales g L) S) (take n (cycle oc)) ! i"
      using i by (simp add: len)
  qed
  show "ranged (level_scales g1 L) S (nat (cyclelen oc1)) (cycle oc1)
           = ranged (level_scales g L) S (nat (cyclelen oc)) (cycle oc)"
    by (simp add: ranged_def len sr dr)
  show "level_local g1 L oc1 = level_local g L oc"
    unfolding level_local_def Let_def level_scales_idem e
    by (simp add: same_globals_level(4,5) [OF sg])
qed



section \<open>What the loop over the levels leaves in the root\<close>


lemma same_points_refl: "same_points oc oc"
  by (simp add: same_points_def)


lemma same_points_ranged:
  assumes "nat (cyclelen oc) \<le> length (cycle oc)"
  shows "same_points oc (oc\<lparr> cycle := ranged g S (nat (cyclelen oc)) (cycle oc),
                             ps_basinrect := b \<rparr>)"
  using assms by (simp add: same_points_def ranged_length ranged_pp ranged_drop)

lemma cm_level_state:
  assumes st: "cm_level sw L (g1, oc1, m1) = Some (Inr (g', oc', m', ip))"
    and sg: "same_globals g g1"
    and sp: "same_points oc oc1"
    and rest: "\<exists>c b. oc1 = oc\<lparr> cycle := c, ps_basinrect := b \<rparr>"
    and n: "nat (cyclelen oc) \<le> length (cycle oc)"
  shows "oc' = oc\<lparr> cycle := ranged (level_scales g L) (2 ^ nat L) (nat (cyclelen oc)) (cycle oc),
                    ps_basinrect := level_local g L oc \<rparr>"
    and "same_globals g g'"
    and "ip = L \<or> ip = 0"
proof -
  have n1: "nat (cyclelen oc1) \<le> length (cycle oc1)" using sp n by (simp add: same_points_def)
  from st obtain mgr0 G0 where ls: "level_setup g1 sw L oc1 m1 = Inr (g', oc', mgr0, G0)"
    by (auto simp add: cm_level_def Let_def split: sum.splits option.splits)
  from rest obtain c b where oc1: "oc1 = oc\<lparr> cycle := c, ps_basinrect := b \<rparr>" by blast
  have "oc' = oc1\<lparr> cycle := ranged (level_scales g1 L) (2 ^ nat L) (nat (cyclelen oc1)) (cycle oc1),
                    ps_basinrect := level_local g1 L oc1 \<rparr>"
    by (rule level_setup_Inr(7) [OF ls n1])
  also have "\<dots> = oc1\<lparr> cycle := ranged (level_scales g L) (2 ^ nat L) (nat (cyclelen oc)) (cycle oc),
                    ps_basinrect := level_local g L oc \<rparr>"
    unfolding same_points_level(2) [OF sp sg] same_points_level(3) [OF sp sg] by (rule refl)
  also have "\<dots> = oc\<lparr> cycle := ranged (level_scales g L) (2 ^ nat L) (nat (cyclelen oc)) (cycle oc),
                    ps_basinrect := level_local g L oc \<rparr>"
    by (simp add: oc1)
  finally show "oc' = oc\<lparr> cycle := ranged (level_scales g L) (2 ^ nat L) (nat (cyclelen oc)) (cycle oc),
                    ps_basinrect := level_local g L oc \<rparr>" .
  have "g' = (level_scales g1 L)\<lparr> local_rect := level_local g1 L oc1 \<rparr>"
    by (rule level_setup_Inr(6) [OF ls n1])
  then show "same_globals g g'" using same_globals_level(2) [OF sg] by simp
  from st show "ip = L \<or> ip = 0"
    by (auto simp add: cm_level_def Let_def split: sum.splits option.splits if_splits)
qed

lemma level_loop_written:
  assumes "level_loop sw Ls (g1, oc1, m1, ip0) = Some (Inr (g', oc', m', ip))"
    and "same_globals g g1"
    and "same_points oc oc1"
    and "\<exists>c b. oc1 = oc\<lparr> cycle := c, ps_basinrect := b \<rparr>"
    and "nat (cyclelen oc) \<le> length (cycle oc)"
    and "Ls \<noteq> []"
  shows "oc' = oc\<lparr> cycle := ranged (level_scales g (if 0 < ip then ip else last Ls))
                               (2 ^ nat (if 0 < ip then ip else last Ls))
                               (nat (cyclelen oc)) (cycle oc),
                    ps_basinrect := level_local g (if 0 < ip then ip else last Ls) oc \<rparr>"
  using assms
proof (induction Ls arbitrary: g1 oc1 m1 ip0)
  case Nil
  then show ?case by simp
next
  case (Cons L Ls)
  from Cons.prems(1) obtain g2 oc2 m2 ip1
    where st: "cm_level sw L (g1, oc1, m1) = Some (Inr (g2, oc2, m2, ip1))"
      and rest: "(0 < ip1 \<and> oc' = oc2 \<and> ip = ip1) \<or>
                 (\<not> 0 < ip1 \<and> level_loop sw Ls (g2, oc2, m2, ip1) = Some (Inr (g', oc', m', ip)))"
    by (auto split: option.splits sum.splits if_splits)
  note cs = cm_level_state [OF st Cons.prems(2,3,4,5)]
  from rest show ?case
  proof
    assume a: "0 < ip1 \<and> oc' = oc2 \<and> ip = ip1"
    then have "ip = L" using cs(3) by auto
    then show ?thesis using a cs(1) by simp
  next
    assume b: "\<not> 0 < ip1 \<and> level_loop sw Ls (g2, oc2, m2, ip1) = Some (Inr (g', oc', m', ip))"
    show ?thesis
    proof (cases "Ls = []")
      case True
      then have "oc' = oc2" "ip = ip1" using b by simp_all
      then show ?thesis using b cs(1) True by simp
    next
      case False
      have sp2: "same_points oc oc2"
        unfolding cs(1) by (rule same_points_ranged [OF Cons.prems(5)])
      have r2: "\<exists>c b. oc2 = oc\<lparr> cycle := c, ps_basinrect := b \<rparr>" using cs(1) by blast
      from Cons.IH [OF conjunct2 [OF b] cs(2) sp2 r2 Cons.prems(5) False] False
      show ?thesis by simp
    qed
  qed
qed

lemma last_upto: "a \<le> b \<Longrightarrow> last [a..b] = b"
  by (simp add: upto_rec2)

lemma level_local_interiorfound:
  "level_local g L (oc\<lparr> interiorfound := v \<rparr>) = level_local g L oc"
  by (simp add: level_local_def level_encl_def)

subsection \<open>The set-up of a level from the state of the loop and from the state of the call\<close>






subsection \<open>The loop over the levels\<close>









section \<open>The propagation only turns GRAY into POTW\<close>

text \<open>
  Claim C3. Within one level, a sweep of the while loop of \<open>cm_local\<close> over a well-formed
  grid returns a grid that has every POTW bit of the grid it started from, and every
  cell that read as POTW before the sweep reads as POTW after it; the same holds between
  the grid the loop starts from and the grid it ends with.
\<close>

theorem sweep_keeps_POTW:
  assumes "grid_wf G"
  shows "(\<exists>G1 changed. sweep g G = Inr (G1, changed) \<and> potw_bits G \<subseteq> potw_bits G1 \<and>
            (\<forall>x y. CELLCOLOR_XY G x y = SQUARE_POTW \<longrightarrow> CELLCOLOR_XY G1 x y = SQUARE_POTW)) \<and>
         (\<exists>G'. propagate g G = Some (Inr G') \<and> potw_bits G \<subseteq> potw_bits G' \<and>
            (\<forall>x y. CELLCOLOR_XY G x y = SQUARE_POTW \<longrightarrow> CELLCOLOR_XY G' x y = SQUARE_POTW))"
proof
  obtain G1 ch where sw: "sweep g G = Inr (G1, ch)" "grid_le G G1" by (rule sweep_cases)
  show "\<exists>G1 changed. sweep g G = Inr (G1, changed) \<and> potw_bits G \<subseteq> potw_bits G1 \<and>
            (\<forall>x y. CELLCOLOR_XY G x y = SQUARE_POTW \<longrightarrow> CELLCOLOR_XY G1 x y = SQUARE_POTW)"
    using sw grid_le_potw_bits [OF sw(2)] CELLCOLOR_XY_mono [OF sw(2) assms] by blast
  obtain G' where pr: "propagate g G = Some (Inr G')" "grid_le G G'"
    using propagate_terminates [OF assms] by blast
  show "\<exists>G'. propagate g G = Some (Inr G') \<and> potw_bits G \<subseteq> potw_bits G' \<and>
            (\<forall>x y. CELLCOLOR_XY G x y = SQUARE_POTW \<longrightarrow> CELLCOLOR_XY G' x y = SQUARE_POTW)"
    using pr grid_le_potw_bits [OF pr(2)] CELLCOLOR_XY_mono [OF pr(2) assms] by blast
qed

theorem sweep_keeps_POTW_witness:
  "grid_wf G8_primed \<and> sweep g8 G8_primed = Inr (G8_final, True) \<and>
   potw_bits G8_primed \<subseteq> potw_bits G8_final \<and>
   propagate g8 G8_primed = Some (Inr G8_final) \<and>
   CELLCOLOR_XY G8_primed 130 128 = SQUARE_POTW \<and> CELLCOLOR_XY G8_final 130 128 = SQUARE_POTW"
proof -
  have c: "CELLCOLOR_XY G8_primed 130 128 = SQUARE_POTW"
    by (simp add: CELLCOLOR_XY_def G8_primed_def)
  from sweep_keeps_POTW [OF grid_wf_G8_primed, of g8]
  have "potw_bits G8_primed \<subseteq> potw_bits G8_final \<and>
        (\<forall>x y. CELLCOLOR_XY G8_primed x y = SQUARE_POTW \<longrightarrow> CELLCOLOR_XY G8_final x y = SQUARE_POTW)"
    by (simp add: sweep_c0_1)
  then show ?thesis using c grid_wf_G8_primed sweep_c0_1 propagate_c0 by blast
qed

section \<open>The propagation ends\<close>


text \<open>
  Claim C4. The grid a level starts from is the one \<open>level_setup\<close> returns. The while
  loop ends on it, and between its first and its last grid at most
  \<open>32 * LOCALLENX * LOCALLENY\<close> bits have turned POTW, one for each bit of the words of
  the rows of the enclosement; every sweep that reports a change has turned at least one
  GRAY bit POTW, and a sweep that reports none leaves the grid as it is and ends the loop.
\<close>

theorem propagate_ends:
  assumes "level_setup g sw L oc mgr = Inr (g', oc', mgr', G0)"
    and "nat (cyclelen oc) \<le> length (cycle oc)"
  shows "(\<exists>G'. propagate g' G0 = Some (Inr G') \<and>
            card (potw_bits G' - potw_bits G0) \<le>
              32 * nat (mem1_all G0 - mem0_all G0 + 1)
                 * nat (sy1 (enclosementall G0) - sy0 (enclosementall G0) + 1)) \<and>
         (\<forall>G. grid_wf G \<longrightarrow>
            (\<exists>G1 changed. sweep g' G = Inr (G1, changed) \<and> grid_wf G1 \<and>
               (changed \<longrightarrow> gray_count G1 < gray_count G \<and> propagate g' G = propagate g' G1) \<and>
               (\<not> changed \<longrightarrow> ispotwY G1 = ispotwY G \<and> propagate g' G = Some (Inr G1))))"
proof
  have wf: "grid_wf G0" using level_setup_Inr [OF assms] by simp
  obtain G' where pr: "propagate g' G0 = Some (Inr G')" "grid_le G0 G'" "grid_wf G'"
    using propagate_terminates [OF wf] by blast
  have "card (potw_bits G' - potw_bits G0) \<le> card (potw_bits G')"
    using potw_bits_card(1) [OF pr(3)] by (intro card_mono) auto
  also have "\<dots> \<le> 32 * nat (mem1_all G' - mem0_all G' + 1)
                 * nat (sy1 (enclosementall G') - sy0 (enclosementall G') + 1)"
    by (rule potw_bits_card(2) [OF pr(3)])
  finally show "\<exists>G'. propagate g' G0 = Some (Inr G') \<and>
            card (potw_bits G' - potw_bits G0) \<le>
              32 * nat (mem1_all G0 - mem0_all G0 + 1)
                 * nat (sy1 (enclosementall G0) - sy0 (enclosementall G0) + 1)"
    using pr(1) grid_le_shape [OF pr(2)] by auto
  show "\<forall>G. grid_wf G \<longrightarrow>
            (\<exists>G1 changed. sweep g' G = Inr (G1, changed) \<and> grid_wf G1 \<and>
               (changed \<longrightarrow> gray_count G1 < gray_count G \<and> propagate g' G = propagate g' G1) \<and>
               (\<not> changed \<longrightarrow> ispotwY G1 = ispotwY G \<and> propagate g' G = Some (Inr G1)))"
  proof (intro allI impI)
    fix G assume w: "grid_wf G"
    obtain G1 ch where sw: "sweep g' G = Inr (G1, ch)" "grid_wf G \<longrightarrow> grid_wf G1"
      "grid_wf G \<and> ch \<longrightarrow> gray_count G1 < gray_count G" "\<not> ch \<longrightarrow> ispotwY G1 = ispotwY G"
      by (rule sweep_cases)
    have p: "propagate g' G = (if ch then propagate g' G1 else Some (Inr G1))"
      by (subst propagate.simps) (simp add: sw(1))
    show "\<exists>G1 changed. sweep g' G = Inr (G1, changed) \<and> grid_wf G1 \<and>
               (changed \<longrightarrow> gray_count G1 < gray_count G \<and> propagate g' G = propagate g' G1) \<and>
               (\<not> changed \<longrightarrow> ispotwY G1 = ispotwY G \<and> propagate g' G = Some (Inr G1))"
      using sw w p by (intro exI [of _ G1] exI [of _ ch]) simp
  qed
qed

theorem propagate_ends_witness:
  "level_setup globals_z2c_c0 ALL32POTW 8 (root_c0\<lparr> interiorfound := 0 \<rparr>) ArrayDDByteManager_init
     = Inr (g8, root8, mgr8, G8_primed) \<and>
   nat (cyclelen (root_c0\<lparr> interiorfound := 0 \<rparr>)) \<le> length (cycle (root_c0\<lparr> interiorfound := 0 \<rparr>)) \<and>
   propagate g8 G8_primed = Some (Inr G8_final) \<and>
   card (potw_bits G8_final - potw_bits G8_primed) \<le> 32 * 2 * 3"
proof -
  have n: "nat (cyclelen (root_c0\<lparr> interiorfound := 0 \<rparr>)) \<le> length (cycle (root_c0\<lparr> interiorfound := 0 \<rparr>))"
    by (simp add: root_c0_def)
  have "card (potw_bits G8_final - potw_bits G8_primed) \<le>
      32 * nat (mem1_all G8_primed - mem0_all G8_primed + 1)
         * nat (sy1 (enclosementall G8_primed) - sy0 (enclosementall G8_primed) + 1)"
    using propagate_ends [OF level_setup_c0 n] by (simp add: propagate_c0)
  then have "card (potw_bits G8_final - potw_bits G8_primed) \<le> 32 * 2 * 3"
    by (simp add: G8_primed_def)
  then show ?thesis using level_setup_c0 n propagate_c0 by simp
qed

theorem flips_exceed_enclosement_counterexample:
  "level_setup globals_z2c_c0 ALL32POTW 8 (root_c0\<lparr> interiorfound := 0 \<rparr>) ArrayDDByteManager_init
     = Inr (g8, root8, mgr8, G8_primed) \<and>
   propagate g8 G8_primed = Some (Inr G8_final) \<and>
   nat ((sx1 (enclosementall G8_primed) - sx0 (enclosementall G8_primed) + 1)
        * (sy1 (enclosementall G8_primed) - sy0 (enclosementall G8_primed) + 1)) = 9 \<and>
   9 < card (potw_bits G8_final - potw_bits G8_primed)"
proof -
  have "nat ((sx1 (enclosementall G8_primed) - sx0 (enclosementall G8_primed) + 1)
        * (sy1 (enclosementall G8_primed) - sy0 (enclosementall G8_primed) + 1)) = 9"
    by (simp add: G8_primed_def)
  then show ?thesis using level_setup_c0 propagate_c0 flips_c0 by simp
qed

section \<open>No cell outside the screen\<close>

text \<open>
  Claim C8. At a level \<open>L\<close> with \<open>S = 2 ^ L\<close>, the padded rectangle of every periodic point
  of the cycle is clamped into \<open>[0, S - 1]\<close> in its four coordinates, and the ranges
  written to the point are those of the clamped rectangle; \<open>enclosementall\<close> lies in
  \<open>[0, S - 1]\<close>, and so do the pixels of the words \<open>mem0..mem1\<close> that the rows of the grid
  hold. \<open>CELLCOLOR_XY\<close> answers POTW for every pixel outside \<open>enclosementall\<close>, whatever the
  rows of the grid hold.
\<close>

theorem grid_within_screen:
  assumes "level_setup g sw L oc mgr = Inr (g', oc', mgr', G0)"
    and "nat (cyclelen oc) \<le> length (cycle oc)"
    and "1 \<le> cyclelen oc"
    and "0 \<le> L" and "L \<le> 30"
  shows "(\<forall>k<nat (cyclelen oc).
            in_screen (2 ^ nat L) (point_rect g' (2 ^ nat L) (cycle oc ! k)) \<and>
            cycle oc' ! k = set_ranges g' (2 ^ nat L) (cycle oc ! k)) \<and>
         in_screen (2 ^ nat L) (enclosementall G0) \<and>
         0 \<le> 32 * mem0_all G0 \<and> 32 * mem1_all G0 + 31 \<le> 2 ^ nat L - 1 \<and>
         (\<forall>G rows x y. \<not> in_enclosement G x y \<longrightarrow>
            CELLCOLOR_XY (G\<lparr> ispotwY := rows \<rparr>) x y = SQUARE_POTW)"
proof -
  note ls = level_setup_Inr [OF assms(1,2)]
  have S: "(0::int) < 2 ^ nat L" by simp
  have encl: "in_screen (2 ^ nat L) (enclosementall G0)"
    using level_encl_in_screen [OF assms(3,2)] ls(1) by simp
  have m0: "0 \<le> 32 * mem0_all G0"
    using encl ls(2,1) by (simp add: in_screen_def pos_imp_zdiv_nonneg_iff)
  have m1: "32 * mem1_all G0 + 31 \<le> 2 ^ nat L - 1"
    by (rule word_range_in_screen [OF ls(4)])
  have pts: "\<forall>k<nat (cyclelen oc).
            in_screen (2 ^ nat L) (point_rect g' (2 ^ nat L) (cycle oc ! k)) \<and>
            cycle oc' ! k = set_ranges g' (2 ^ nat L) (cycle oc ! k)"
    using assms(2) S
    by (simp add: ls(6) ls(7) point_rect_in_screen ranged_nth_less set_ranges_local)
  show ?thesis using pts encl m0 m1 CELLCOLOR_XY_outside by blast
qed

theorem grid_within_screen_witness:
  "level_setup globals_z2c_c0 ALL32POTW 8 (root_c0\<lparr> interiorfound := 0 \<rparr>) ArrayDDByteManager_init
     = Inr (g8, root8, mgr8, G8_primed) \<and>
   in_screen 256 (point_rect g8 256 (cycle (root_c0\<lparr> interiorfound := 0 \<rparr>) ! 0)) \<and>
   in_screen 256 (enclosementall G8_primed) \<and>
   32 * mem1_all G8_primed + 31 \<le> 255 \<and>
   \<not> in_enclosement G8_primed (- 1) 128 \<and>
   CELLCOLOR_XY (G8_primed\<lparr> ispotwY := [] \<rparr>) (- 1) 128 = SQUARE_POTW"
proof -
  have n: "nat (cyclelen (root_c0\<lparr> interiorfound := 0 \<rparr>)) \<le> length (cycle (root_c0\<lparr> interiorfound := 0 \<rparr>))"
    "1 \<le> cyclelen (root_c0\<lparr> interiorfound := 0 \<rparr>)"
    by (simp_all add: root_c0_def)
  have o: "\<not> in_enclosement G8_primed (- 1) 128"
    by (simp add: in_enclosement_def G8_primed_def)
  have k: "0 < nat (cyclelen (root_c0\<lparr> interiorfound := 0 \<rparr>))" by (simp add: root_c0_def)
  from grid_within_screen [OF level_setup_c0 n]
  have t: "(\<forall>k<nat (cyclelen (root_c0\<lparr> interiorfound := 0 \<rparr>)).
            in_screen (2 ^ nat 8) (point_rect g8 (2 ^ nat 8) (cycle (root_c0\<lparr> interiorfound := 0 \<rparr>) ! k))) \<and>
         in_screen (2 ^ nat 8) (enclosementall G8_primed) \<and>
         32 * mem1_all G8_primed + 31 \<le> 2 ^ nat 8 - 1 \<and>
         (\<forall>G rows x y. \<not> in_enclosement G x y \<longrightarrow>
            CELLCOLOR_XY (G\<lparr> ispotwY := rows \<rparr>) x y = SQUARE_POTW)"
    by simp
  then have "in_screen (2 ^ nat 8) (point_rect g8 (2 ^ nat 8) (cycle (root_c0\<lparr> interiorfound := 0 \<rparr>) ! 0))"
    using k by blast
  moreover have "CELLCOLOR_XY (G8_primed\<lparr> ispotwY := [] \<rparr>) (- 1) 128 = SQUARE_POTW"
    using t o by blast
  ultimately show ?thesis using t o level_setup_c0 by simp
qed

section \<open>The fields of the root that the propagator leaves\<close>



text \<open>
  Claim C9. When \<open>cm_local\<close> returns, the attractor, the multiplier, \<open>cyclelen\<close> and
  \<open>cyclenumber\<close> of the root are what they were, the array \<open>cycle\<close> has its length, every
  periodic point \<open>pp\<close> in it is what it was, and the entries of \<open>cycle\<close> from index
  \<open>cyclelen\<close> on are unchanged; \<open>interiorfound\<close> is the returned value. What else is written
  depends on the levels: when \<open>LEVEL0 > LEVEL1\<close> no level is visited and the root is
  otherwise unchanged; when \<open>LEVEL0 \<le> LEVEL1\<close>, \<open>ps_basinrect\<close> and the fields \<open>mem0\<close>, \<open>mem1\<close>,
  \<open>y0\<close> and \<open>y1\<close> of the first \<open>cyclelen\<close> entries of \<open>cycle\<close> hold the values of the last
  level visited, which is the returned level when that is positive and \<open>LEVEL1\<close> otherwise:
  the plane rectangle of \<open>enclosementall\<close>, and for each point the word range and the row
  range of its clamped rectangle.
\<close>

theorem cm_local_frame:
  assumes "cm_local g oc sw = Some (Inr (r, oc'))"
    and "nat (cyclelen oc) \<le> length (cycle oc)"
  shows "attractor oc' = attractor oc \<and> multiplier oc' = multiplier oc \<and>
         cyclelen oc' = cyclelen oc \<and> cyclenumber oc' = cyclenumber oc \<and>
         interiorfound oc' = r \<and>
         length (cycle oc') = length (cycle oc) \<and> map pp (cycle oc') = map pp (cycle oc) \<and>
         drop (nat (cyclelen oc)) (cycle oc') = drop (nat (cyclelen oc)) (cycle oc) \<and>
         (LEVEL1 g < LEVEL0 g \<longrightarrow> r = 0 \<and> oc' = oc\<lparr> interiorfound := 0 \<rparr>) \<and>
         (LEVEL0 g \<le> LEVEL1 g \<longrightarrow>
            oc' = oc\<lparr> cycle := ranged (level_scales g (if 0 < r then r else LEVEL1 g))
                                  (2 ^ nat (if 0 < r then r else LEVEL1 g))
                                  (nat (cyclelen oc)) (cycle oc),
                       ps_basinrect := level_local g (if 0 < r then r else LEVEL1 g) oc,
                       interiorfound := r \<rparr>)"
proof -
  from assms(1) obtain g1 oc1 mgr1
    where ll: "level_loop sw [LEVEL0 g..LEVEL1 g]
                  (g, oc\<lparr> interiorfound := 0 \<rparr>, ArrayDDByteManager_init, 0)
               = Some (Inr (g1, oc1, mgr1, r))"
      and oc': "oc' = oc1\<lparr> interiorfound := r \<rparr>"
    by (auto simp add: cm_local_def Let_def split: option.splits sum.splits)
  have n0: "nat (cyclelen (oc\<lparr> interiorfound := 0 \<rparr>)) \<le> length (cycle (oc\<lparr> interiorfound := 0 \<rparr>))"
    using assms(2) by simp
  have frame: "attractor oc' = attractor oc \<and> multiplier oc' = multiplier oc \<and>
         cyclelen oc' = cyclelen oc \<and> cyclenumber oc' = cyclenumber oc \<and>
         interiorfound oc' = r \<and>
         length (cycle oc') = length (cycle oc) \<and> map pp (cycle oc') = map pp (cycle oc) \<and>
         drop (nat (cyclelen oc)) (cycle oc') = drop (nat (cyclelen oc)) (cycle oc)"
    using level_loop_frame [OF ll n0] by (simp add: oc')
  have empty: "r = 0 \<and> oc' = oc\<lparr> interiorfound := 0 \<rparr>" if "LEVEL1 g < LEVEL0 g"
  proof -
    have "[LEVEL0 g..LEVEL1 g] = []" using that by simp
    then have "oc1 = oc\<lparr> interiorfound := 0 \<rparr>" and "r = 0" using ll by auto
    then show ?thesis using oc' by simp
  qed
  have visited: "oc' = oc\<lparr> cycle := ranged (level_scales g (if 0 < r then r else LEVEL1 g))
                                  (2 ^ nat (if 0 < r then r else LEVEL1 g))
                                  (nat (cyclelen oc)) (cycle oc),
                       ps_basinrect := level_local g (if 0 < r then r else LEVEL1 g) oc,
                       interiorfound := r \<rparr>" if le: "LEVEL0 g \<le> LEVEL1 g"
  proof -
    have ne: "[LEVEL0 g..LEVEL1 g] \<noteq> []" using le by simp
    have r0: "\<exists>c b. oc\<lparr> interiorfound := 0 \<rparr> = oc\<lparr> interiorfound := 0 \<rparr>\<lparr> cycle := c, ps_basinrect := b \<rparr>"
      by (intro exI [of _ "cycle oc"] exI [of _ "ps_basinrect oc"]) simp
    from level_loop_written [OF ll same_globals_refl same_points_refl r0 n0 ne]
    show ?thesis
      by (simp add: oc' last_upto [OF le] level_local_interiorfound)
  qed
  show ?thesis using frame empty visited by blast
qed

theorem cm_local_frame_witness:
  "cm_local globals_z2c_c0 root_c0 ALL32POTW = Some (Inr (8, root8\<lparr> interiorfound := 8 \<rparr>)) \<and>
   nat (cyclelen root_c0) \<le> length (cycle root_c0) \<and>
   attractor (root8\<lparr> interiorfound := 8 \<rparr>) = attractor root_c0 \<and>
   multiplier (root8\<lparr> interiorfound := 8 \<rparr>) = multiplier root_c0 \<and>
   cyclelen (root8\<lparr> interiorfound := 8 \<rparr>) = cyclelen root_c0 \<and>
   cyclenumber (root8\<lparr> interiorfound := 8 \<rparr>) = cyclenumber root_c0 \<and>
   map pp (cycle (root8\<lparr> interiorfound := 8 \<rparr>)) = map pp (cycle root_c0) \<and>
   root8\<lparr> interiorfound := 8 \<rparr> =
     root_c0\<lparr> cycle := ranged (level_scales globals_z2c_c0 8) (2 ^ nat 8)
                           (nat (cyclelen root_c0)) (cycle root_c0),
              ps_basinrect := level_local globals_z2c_c0 8 root_c0,
              interiorfound := 8 \<rparr> \<and>
   cm_local globals_no_level root_c0 ALL32POTW = Some (Inr (0, root_c0\<lparr> interiorfound := 0 \<rparr>)) \<and>
   ps_basinrect (root_c0\<lparr> interiorfound := 0 \<rparr>) = ps_basinrect root_c0 \<and>
   cycle (root_c0\<lparr> interiorfound := 0 \<rparr>) = cycle root_c0"
proof -
  have n: "nat (cyclelen root_c0) \<le> length (cycle root_c0)" by (simp add: root_c0_def)
  have l: "LEVEL0 globals_z2c_c0 = 8" "LEVEL1 globals_z2c_c0 = 8"
    by (simp_all add: globals_z2c_c0_def)
  have e: "cm_local globals_no_level root_c0 ALL32POTW
             = Some (Inr (0, root_c0\<lparr> interiorfound := 0 \<rparr>))"
    by (simp add: cm_local_def globals_no_level_def)
  note t = cm_local_frame [OF cm_local_c0 n]
  have a1:
    "attractor (root8\<lparr> interiorfound := 8 \<rparr>) = attractor root_c0 \<and>
     multiplier (root8\<lparr> interiorfound := 8 \<rparr>) = multiplier root_c0 \<and>
     cyclelen (root8\<lparr> interiorfound := 8 \<rparr>) = cyclelen root_c0 \<and>
     cyclenumber (root8\<lparr> interiorfound := 8 \<rparr>) = cyclenumber root_c0 \<and>
     map pp (cycle (root8\<lparr> interiorfound := 8 \<rparr>)) = map pp (cycle root_c0)"
    using t by blast
  have "LEVEL0 globals_z2c_c0 \<le> LEVEL1 globals_z2c_c0" by (simp add: l)
  then have "root8\<lparr> interiorfound := 8 \<rparr> =
       root_c0\<lparr> cycle := ranged (level_scales globals_z2c_c0
                                       (if 0 < (8::int) then 8 else LEVEL1 globals_z2c_c0))
                             (2 ^ nat (if 0 < (8::int) then 8 else LEVEL1 globals_z2c_c0))
                             (nat (cyclelen root_c0)) (cycle root_c0),
                ps_basinrect := level_local globals_z2c_c0
                                  (if 0 < (8::int) then 8 else LEVEL1 globals_z2c_c0) root_c0,
                interiorfound := 8 \<rparr>"
    using t by blast
  then have a2: "root8\<lparr> interiorfound := 8 \<rparr> =
       root_c0\<lparr> cycle := ranged (level_scales globals_z2c_c0 8) (2 ^ nat 8)
                             (nat (cyclelen root_c0)) (cycle root_c0),
                ps_basinrect := level_local globals_z2c_c0 8 root_c0,
                interiorfound := 8 \<rparr>"
    by (simp only: if_True zero_less_numeral)
  from cm_local_frame [OF e n] have b:
    "ps_basinrect (root_c0\<lparr> interiorfound := 0 \<rparr>) = ps_basinrect root_c0 \<and>
     cycle (root_c0\<lparr> interiorfound := 0 \<rparr>) = cycle root_c0"
    by simp
  show ?thesis using cm_local_c0 n e a1 a2 b by blast
qed

theorem cm_local_writes_cycle_counterexample:
  "cm_local globals_z2c_c0 root_c0 ALL32POTW = Some (Inr (8, root8\<lparr> interiorfound := 8 \<rparr>)) \<and>
   cycle root_c0 ! 0 = \<lparr> pp = Complex 0 0, mem0 = 0, mem1 = 0, py0 = 0, py1 = 0 \<rparr> \<and>
   cycle (root8\<lparr> interiorfound := 8 \<rparr>) ! 0
     = \<lparr> pp = Complex 0 0, mem0 = 3, mem1 = 4, py0 = 127, py1 = 129 \<rparr> \<and>
   cycle (root8\<lparr> interiorfound := 8 \<rparr>) \<noteq> cycle root_c0"
proof -
  have "cycle root_c0 ! 0 = \<lparr> pp = Complex 0 0, mem0 = 0, mem1 = 0, py0 = 0, py1 = 0 \<rparr>"
    by (simp add: root_c0_def new_PeriodicPoint_def)
  moreover have "cycle (root8\<lparr> interiorfound := 8 \<rparr>) ! 0
     = \<lparr> pp = Complex 0 0, mem0 = 3, mem1 = 4, py0 = 127, py1 = 129 \<rparr>"
    by (simp add: root8_def)
  moreover have "cycle (root8\<lparr> interiorfound := 8 \<rparr>) \<noteq> cycle root_c0"
    by (simp add: root8_def root_c0_def new_PeriodicPoint_def)
  ultimately show ?thesis using cm_local_c0 by simp
qed



section \<open>The value of getLagrange\<close>

text \<open>
  Claim C6. \<open>getLagrange\<close> does not always return the smallest power of two that is at
  least \<open>ceil (1 + (|a_0| + ... + |a_d|) / |a_d|)\<close>. For \<open>z^2 + 536870910\<close> this number is
  \<open>2^29\<close>, a power of two; when the double quotient \<open>log(536870912.0)/log(2.0)\<close> is above 29,
  as it is with IEEE doubles, \<open>getLagrange\<close> returns \<open>2^30\<close>. For \<open>z^2 + 1073741824\<close> the
  number is \<open>2^30 + 2\<close>, the exponent is 31 and \<open>1 << 31\<close> is not \<open>2^31\<close> in a 32-bit \<open>int\<close>:
  \<open>getLagrange\<close> returns \<open>- 2^31\<close>. The argument of \<open>getLagrange\<close> is the global \<open>fkt\<close>, as in
  \<open>main\<close>.
\<close>

theorem getLagrange_not_smallest_power:
  assumes "29 < log2q 536870912" and "log2q 536870912 \<le> 30"
    and "30 < log2q 1073741826" and "log2q 1073741826 \<le> 31"
  shows "getLagrange log2q globals_c536870910 (fkt globals_c536870910) = Some (2 ^ 30) \<and>
         \<lceil>1 + (\<Sum>i\<le>2. norm_c (coeff (fkt globals_c536870910) ! i))
                / norm_c (coeff (fkt globals_c536870910) ! 2)\<rceil> = 2 ^ 29 \<and>
         getLagrange log2q globals_c1073741824 (fkt globals_c1073741824) = Some (- (2 ^ 31)) \<and>
         \<lceil>1 + (\<Sum>i\<le>2. norm_c (coeff (fkt globals_c1073741824) ! i))
                / norm_c (coeff (fkt globals_c1073741824) ! 2)\<rceil> = 2 ^ 30 + 2"
proof -
  have e29: "\<lceil>log2q 536870912\<rceil> = 30"
    using ceiling_between [of 29 "log2q 536870912"] assms(1,2) by simp
  have e30: "\<lceil>log2q 1073741826\<rceil> = 31"
    using ceiling_between [of 30 "log2q 1073741826"] assms(3,4) by simp
  have a: "getLagrange log2q globals_c536870910 (fkt globals_c536870910) = Some (2 ^ 30)"
    unfolding getLagrange_eq res_c536870910 by (simp add: e29 shift_left_1_vals)
  have b: "getLagrange log2q globals_c1073741824 (fkt globals_c1073741824) = Some (- (2 ^ 31))"
    unfolding getLagrange_eq res_c1073741824 by (simp add: e30 shift_left_1_vals)
  show ?thesis using a b claimed_c536870910 claimed_c1073741824 by simp
qed

theorem getLagrange_not_smallest_power_witness:
  "29 < log2q_sample 536870912 \<and> log2q_sample 536870912 \<le> 30 \<and>
   30 < log2q_sample 1073741826 \<and> log2q_sample 1073741826 \<le> 31 \<and>
   getLagrange log2q_sample globals_c536870910 (fkt globals_c536870910) = Some 1073741824 \<and>
   getLagrange log2q_sample globals_c1073741824 (fkt globals_c1073741824) = Some (- 2147483648)"
proof -
  have h: "29 < log2q_sample 536870912" "log2q_sample 536870912 \<le> 30"
    "30 < log2q_sample 1073741826" "log2q_sample 1073741826 \<le> 31"
    using log2_1073741826 by (simp_all add: log2q_sample_def)
  from getLagrange_not_smallest_power [OF h] show ?thesis using h by simp
qed

section \<open>The walk of the Newton seeds\<close>

text \<open>
  Claim C5. \<open>ps_find_critical_points\<close> is the walk along the left edge followed, while
  fewer than \<open>deg p'\<close> roots are known, by the walk along the top edge: the calls of
  \<open>SUCHE\<close> for the right and the bottom edge run no Newton iteration, since their loops
  count upwards from 1023 to 0. The seeds lie on the square with the corners
  \<open>-3 * R * R\<close> and \<open>3 * R * R\<close> for \<open>R = COMPLETE1\<close>; for \<open>z^2\<close>, where \<open>R = 2\<close>, the first
  seed is \<open>-12 - 12i\<close>, and
  the walk ends there with the critical point 0.
\<close>

theorem ps_find_critical_points_two_edges:
  "ps_find_critical_points g =
     (let fktforcp = ableitenFA (fkt g);
          ablforcp = ableitenFA fktforcp;
          SCR0 = c_trunc (- 3 * (COMPLETE1 g * COMPLETE1 g));
          SCR1 = c_trunc (3 * (COMPLETE1 g * COMPLETE1 g));
          sk = real_of_int (SCR1 - SCR0) / 1024
      in SUCHE_if g fktforcp ablforcp sk SCR0 SCR0 0 1023 1023 1023
           (SUCHE g fktforcp ablforcp sk SCR0 SCR0 0 0 0 1023 [])) \<and>
   SUCHE g fktforcp ablforcp sk SCRRE0 SCRIM0 1023 1023 1023 0 zero = Some (Inr zero) \<and>
   SUCHE g fktforcp ablforcp sk SCRRE0 SCRIM0 1023 0 0 0 zero = Some (Inr zero) \<and>
   COMPLETE1 globals_z2c_c0 = 2 \<and>
   c_trunc (- 3 * (COMPLETE1 globals_z2c_c0 * COMPLETE1 globals_z2c_c0)) = - 12 \<and>
   ps_find_critical_points globals_z2c_c0 = Some (Inr zero_cp0)"
proof -
  have "COMPLETE1 globals_z2c_c0 = 2" by (simp add: globals_z2c_c0_def)
  then show ?thesis
    by (simp add: ps_find_critical_points_def [of g] Let_def SUCHE_if_right_edge
        SUCHE_if_bottom_edge SUCHE_right_edge SUCHE_bottom_edge c_trunc_def
        find_critical_points_c0)
qed

section \<open>The count of critical orbits\<close>


text \<open>
  Claim C7. For \<open>z^2 - 2\<close> the only critical point is 0; its orbit 0, -2, 2, 2, ... is
  bounded and ends in the fixed point 2, whose multiplier 4 is above 1.00001. The cycle is
  discarded as repelling (\<open>cyclelen\<close> is set to 0), so no critical point has an accepted
  cycle, and yet \<open>ps_construct_critical_orbits\<close> returns 1 and the driver does not exit:
  \<open>returnvalue\<close> is incremented after the repelling filter whatever the filter decided.
\<close>

theorem repelling_cycle_is_counted:
  "ps_find_critical_points globals_z2c_m2 = Some (Inr zero_cp0) \<and>
   ps_construct_critical_orbits globals_z2c_m2 zero_cp0 =
     ([(Root_clear zero_Root)\<lparr> attractor := Complex 0 0, multiplier := 4, cyclenumber := 1 \<rparr>], 1) \<and>
   accepted_cycles (fst (ps_construct_critical_orbits globals_z2c_m2 zero_cp0)) = 0 \<and>
   critical_orbits_or_exit globals_z2c_m2 zero_cp0 =
     Inr [(Root_clear zero_Root)\<lparr> attractor := Complex 0 0, multiplier := 4, cyclenumber := 1 \<rparr>]"
proof -
  have l: "[0..<length zero_cp0] = [0]" by (simp add: zero_cp0_def)
  have c: "ps_construct_critical_orbits globals_z2c_m2 zero_cp0 =
     ([(Root_clear zero_Root)\<lparr> attractor := Complex 0 0, multiplier := 4, cyclenumber := 1 \<rparr>], 1)"
    unfolding ps_construct_critical_orbits_def Let_def l by (simp add: body_m2)
  have a: "accepted_cycles
      [(Root_clear zero_Root)\<lparr> attractor := Complex 0 0, multiplier := 4, cyclenumber := 1 \<rparr>] = 0"
    by (simp add: accepted_cycles_def Root_clear_def)
  show ?thesis
    using find_critical_points_m2 a by (simp add: c critical_orbits_or_exit_def)
qed

section \<open>The level that cm_local returns\<close>




end
